theory Spec2Isabelle
  imports Main "HOL-Library.Char_ord" "HOL-Library.List_Lexorder"
    "HOL-Library.Product_Lexorder" "HOL-Library.Sublist"
begin

section \<open>Tables\<close>

text \<open>
  The program is a pandas pipeline.  A table (DataFrame) is modelled by its column labels
  and its rows; every row carries its index label and its cells, keyed by column label.
  A cell is a string, an integer, a boolean, a geometry (kept as its text) or the missing
  value NaN.
\<close>

datatype val = VStr string | VInt int | VBool bool | VGeom string | VNaN

type_synonym row = "(string \<times> val) list"

record frame =
  columns :: "string list"
  rows :: "(nat \<times> row) list"

datatype error =
    ValueError string
  | KeyError string
  | AttributeError string
  | TypeError
  | FetchError string

datatype io_event = ReadCsv string | TractsGet "int option"

definition bind_err :: "error + 'a \<Rightarrow> ('a \<Rightarrow> error + 'b) \<Rightarrow> error + 'b" where
  "bind_err x f = (case x of Inl e \<Rightarrow> Inl e | Inr v \<Rightarrow> f v)"

definition bind_io ::
  "(error + 'a) \<times> io_event list \<Rightarrow> ('a \<Rightarrow> (error + 'b) \<times> io_event list)
     \<Rightarrow> (error + 'b) \<times> io_event list" where
  "bind_io m f =
     (case fst m of
        Inl e \<Rightarrow> (Inl e, snd m)
      | Inr v \<Rightarrow> (fst (f v), snd m @ snd (f v)))"

definition pure_io :: "error + 'a \<Rightarrow> (error + 'a) \<times> io_event list" where
  "pure_io x = (x, [])"

definition cell :: "row \<Rightarrow> string \<Rightarrow> val option" where
  "cell r c = map_of r c"

definition cellv :: "row \<Rightarrow> string \<Rightarrow> val" where
  "cellv r c = (case cell r c of Some v \<Rightarrow> v | None \<Rightarrow> VNaN)"

definition column :: "frame \<Rightarrow> string \<Rightarrow> val list" where
  "column f c = map (\<lambda>ir. cellv (snd ir) c) (rows f)"

definition reset_index :: "frame \<Rightarrow> frame" where
  "reset_index f = f\<lparr>rows := enumerate 0 (map snd (rows f))\<rparr>"

subsection \<open>Python text\<close>

definition digit_char :: "int \<Rightarrow> char" where
  "digit_char d = char_of (48 + d)"

function str_digits :: "int \<Rightarrow> string" where
  "str_digits n =
     (if n < 10 then [digit_char n] else str_digits (n div 10) @ [digit_char (n mod 10)])"
  by pat_completeness auto
termination
  by (relation "measure nat") auto

definition str_int :: "int \<Rightarrow> string" where
  "str_int i = (if i < 0 then CHR ''-'' # str_digits (- i) else str_digits i)"

definition py_quote :: "string \<Rightarrow> string" where
  "py_quote s = [CHR 0x27] @ s @ [CHR 0x27]"

fun join_comma :: "string list \<Rightarrow> string" where
  "join_comma [] = []"
| "join_comma [x] = x"
| "join_comma (x # y # ys) = x @ '', '' @ join_comma (y # ys)"

definition py_list :: "string list \<Rightarrow> string" where
  "py_list items = ''['' @ join_comma items @ '']''"

text \<open>
  \<open>astype(str)\<close> on a column.  A numeric column that holds a missing value is a float column
  in pandas, and its integers print with a trailing \<open>.0\<close> (exact below \<open>10^16\<close>, which covers
  the 15-digit block codes).
\<close>

definition is_float_col :: "val list \<Rightarrow> bool" where
  "is_float_col vs = (VNaN \<in> set vs \<and>
     list_all (\<lambda>v. case v of VInt _ \<Rightarrow> True | VNaN \<Rightarrow> True | _ \<Rightarrow> False) vs)"

fun py_str :: "bool \<Rightarrow> val \<Rightarrow> string" where
  "py_str fl (VStr s) = s"
| "py_str fl (VInt n) = (if fl then str_int n @ ''.0'' else str_int n)"
| "py_str fl (VBool b) = (if b then ''True'' else ''False'')"
| "py_str fl (VGeom w) = w"
| "py_str fl VNaN = ''nan''"

definition astype_str :: "val list \<Rightarrow> string list" where
  "astype_str vs = map (py_str (is_float_col vs)) vs"

subsection \<open>Column operations\<close>

definition rename_by :: "(string \<times> string) list \<Rightarrow> string \<Rightarrow> string" where
  "rename_by d c = (case map_of d c of Some n \<Rightarrow> n | None \<Rightarrow> c)"

definition rename_row :: "(string \<Rightarrow> string) \<Rightarrow> row \<Rightarrow> row" where
  "rename_row ren r = map (\<lambda>kv. (ren (fst kv), snd kv)) r"

definition rename_columns :: "(string \<Rightarrow> string) \<Rightarrow> frame \<Rightarrow> frame" where
  "rename_columns ren f =
     \<lparr>columns = map ren (columns f), rows = map (\<lambda>ir. (fst ir, rename_row ren (snd ir))) (rows f)\<rparr>"

definition row_set :: "string \<Rightarrow> val \<Rightarrow> row \<Rightarrow> row" where
  "row_set c v r =
     (if c \<in> set (map fst r) then map (\<lambda>kv. if fst kv = c then (c, v) else kv) r
      else r @ [(c, v)])"

definition assign_col :: "string \<Rightarrow> val list \<Rightarrow> frame \<Rightarrow> frame" where
  "assign_col c vs f =
     \<lparr>columns = (if c \<in> set (columns f) then columns f else columns f @ [c]),
      rows = map (\<lambda>p. (fst (fst p), row_set c (snd p) (snd (fst p)))) (zip (rows f) vs)\<rparr>"

definition row_take :: "string list \<Rightarrow> row \<Rightarrow> row" where
  "row_take cs r = map (\<lambda>c. (c, cellv r c)) cs"

definition take_columns :: "string list \<Rightarrow> frame \<Rightarrow> frame" where
  "take_columns cs f = \<lparr>columns = cs, rows = map (\<lambda>ir. (fst ir, row_take cs (snd ir))) (rows f)\<rparr>"

definition first_missing :: "string list \<Rightarrow> frame \<Rightarrow> string option" where
  "first_missing cs f = find (\<lambda>c. c \<notin> set (columns f)) cs"

definition select_columns :: "string list \<Rightarrow> frame \<Rightarrow> error + frame" where
  "select_columns cs f =
     (case first_missing cs f of Some c \<Rightarrow> Inl (KeyError c) | None \<Rightarrow> Inr (take_columns cs f))"

subsection \<open>Ordering of cells, sorting\<close>

text \<open>Strings compare as in Python, character by character; missing values sort last.\<close>

fun val_key :: "val \<Rightarrow> nat \<times> string \<times> int" where
  "val_key (VBool b) = (0, [], if b then 1 else 0)"
| "val_key (VInt n) = (1, [], n)"
| "val_key (VStr s) = (2, s, 0)"
| "val_key (VGeom w) = (3, w, 0)"
| "val_key VNaN = (4, [], 0)"

definition is_text :: "val \<Rightarrow> bool" where
  "is_text v = (case v of VStr _ \<Rightarrow> True | VNaN \<Rightarrow> True | _ \<Rightarrow> False)"

definition is_number :: "val \<Rightarrow> bool" where
  "is_number v = (case v of VInt _ \<Rightarrow> True | VNaN \<Rightarrow> True | _ \<Rightarrow> False)"

definition comparable :: "val list \<Rightarrow> bool" where
  "comparable vs = (list_all is_text vs \<or> list_all is_number vs)"

definition sort_values :: "string \<Rightarrow> frame \<Rightarrow> error + frame" where
  "sort_values c f =
     (if c \<notin> set (columns f) then Inl (KeyError c)
      else if \<not> comparable (column f c) then Inl TypeError
      else Inr (f\<lparr>rows := sort_key (\<lambda>ir. val_key (cellv (snd ir) c)) (rows f)\<rparr>))"

subsection \<open>Group-by and sum\<close>

definition num_of :: "val \<Rightarrow> int option" where
  "num_of v = (case v of VInt n \<Rightarrow> Some n | VBool b \<Rightarrow> Some (if b then 1 else 0)
                 | VNaN \<Rightarrow> Some 0 | _ \<Rightarrow> None)"

definition sum_cells :: "val list \<Rightarrow> int option" where
  "sum_cells vs = map_option sum_list (those (map num_of vs))"

definition row_key :: "string list \<Rightarrow> row \<Rightarrow> val list" where
  "row_key ks r = map (cellv r) ks"

definition group_keys :: "string list \<Rightarrow> row list \<Rightarrow> val list list" where
  "group_keys ks rs = sort_key (map val_key) (remdups (map (row_key ks) rs))"

definition group_row :: "string list \<Rightarrow> string list \<Rightarrow> row list \<Rightarrow> val list \<Rightarrow> row option" where
  "group_row ks cs rs k =
     (let g = filter (\<lambda>r. row_key ks r = k) rs
      in map_option (\<lambda>sums. zip ks k @ zip cs (map VInt sums))
           (those (map (\<lambda>c. sum_cells (map (\<lambda>r. cellv r c) g)) cs)))"

text \<open>
  \<open>f[ks + cs].groupby(ks).sum().reset_index()\<close>: rows with a missing key are left out, the
  groups come in ascending key order, every other column is summed within its group.  The
  source files hold integer counts; a summed cell that is not numeric is reported as
  \<open>TypeError\<close>.
\<close>

definition groupby_sum :: "string list \<Rightarrow> string list \<Rightarrow> frame \<Rightarrow> error + frame" where
  "groupby_sum ks cs f =
     (case first_missing (ks @ cs) f of
        Some c \<Rightarrow> Inl (KeyError c)
      | None \<Rightarrow>
          (let rs = filter (\<lambda>r. VNaN \<notin> set (row_key ks r)) (map snd (rows f))
           in case those (map (group_row ks cs rs) (group_keys ks rs)) of
                None \<Rightarrow> Inl TypeError
              | Some out \<Rightarrow> Inr \<lparr>columns = ks @ cs, rows = enumerate 0 out\<rparr>))"

subsection \<open>Merge\<close>

datatype how = Inner | Left

text \<open>
  \<open>left.merge(right, left_on=lk, right_on=rk, how=...)\<close>.  The result follows the order of
  the left rows; when both keys have the same label the key column appears once; any other
  label the two tables share is suffixed \<open>_x\<close> on the left and \<open>_y\<close> on the right; a left
  join keeps an unmatched left row and fills the right columns with NaN.
\<close>

definition suffix_overlap :: "string list \<Rightarrow> string \<Rightarrow> string \<Rightarrow> string" where
  "suffix_overlap overlap sfx c = (if c \<in> set overlap then c @ sfx else c)"

definition merge_rcols :: "string \<Rightarrow> string \<Rightarrow> frame \<Rightarrow> string list" where
  "merge_rcols lk rk right =
     (if lk = rk then filter (\<lambda>c. c \<noteq> rk) (columns right) else columns right)"

definition merge_overlap :: "string \<Rightarrow> string \<Rightarrow> frame \<Rightarrow> frame \<Rightarrow> string list" where
  "merge_overlap lk rk left right =
     filter (\<lambda>c. c \<in> set (merge_rcols lk rk right)) (columns left)"

definition merge_left_row :: "string list \<Rightarrow> row \<Rightarrow> row" where
  "merge_left_row ov l = rename_row (suffix_overlap ov ''_x'') l"

definition merge_right_row :: "string list \<Rightarrow> string list \<Rightarrow> row \<Rightarrow> row" where
  "merge_right_row ov rcols r = rename_row (suffix_overlap ov ''_y'') (row_take rcols r)"

definition merge_matches ::
  "how \<Rightarrow> string \<Rightarrow> string \<Rightarrow> string list \<Rightarrow> string list \<Rightarrow> row list \<Rightarrow> row \<Rightarrow> row list" where
  "merge_matches h lk rk ov rcols rrows l =
     (let ms = filter (\<lambda>r. cellv r rk = cellv l lk) rrows
      in if ms = [] then
           (case h of
              Left \<Rightarrow> [merge_left_row ov l @ map (\<lambda>c. (suffix_overlap ov ''_y'' c, VNaN)) rcols]
            | Inner \<Rightarrow> [])
         else map (\<lambda>r. merge_left_row ov l @ merge_right_row ov rcols r) ms)"

definition merge :: "how \<Rightarrow> string \<Rightarrow> string \<Rightarrow> frame \<Rightarrow> frame \<Rightarrow> error + frame" where
  "merge h lk rk left right =
     (if lk \<notin> set (columns left) then Inl (KeyError lk)
      else if rk \<notin> set (columns right) then Inl (KeyError rk)
      else
        (let rcols = merge_rcols lk rk right;
             ov = merge_overlap lk rk left right
         in Inr \<lparr>columns = map (suffix_overlap ov ''_x'') (columns left)
                             @ map (suffix_overlap ov ''_y'') rcols,
                 rows = enumerate 0
                   (concat (map (merge_matches h lk rk ov rcols (map snd (rows right)))
                              (map snd (rows left))))\<rparr>))"

subsection \<open>Zero columns\<close>

definition is_zero :: "val \<Rightarrow> bool" where
  "is_zero v = (case v of VInt n \<Rightarrow> n = 0 | VBool b \<Rightarrow> \<not> b | _ \<Rightarrow> False)"

text \<open>\<open>out[out.columns[~(out == 0).all()]]\<close>\<close>

definition drop_zero_columns :: "frame \<Rightarrow> frame" where
  "drop_zero_columns f =
     take_columns (filter (\<lambda>c. \<not> list_all is_zero (column f c)) (columns f)) f"

section \<open>The longform pipeline\<close>

definition YEARS :: "int list" where
  "YEARS = [2002..2017]"

definition URL :: string where
  "URL = ''https://lehd.ces.census.gov/data/lodes/LODES7/pa''"

definition allowed_job_types :: "(string \<times> string) list" where
  "allowed_job_types =
     [(''all'', ''JT00''), (''primary'', ''JT01''), (''private'', ''JT02''),
      (''private_primary'', ''JT03'')]"

definition RAW_FIELDS :: "(string \<times> string) list" where
  "RAW_FIELDS =
     [(''C000'', ''total_jobs''),
      (''CA01'', ''age_29_or_younger''),
      (''CA02'', ''age_30_to_54''),
      (''CA03'', ''age_55_or_older''),
      (''CE01'', ''wages_1250_or_less''),
      (''CE02'', ''wages_1251_to_3333''),
      (''CE03'', ''wages_3334_or_more''),
      (''CNS01'', ''agriculture_etc''),
      (''CNS02'', ''mining_etc''),
      (''CNS03'', ''utilities''),
      (''CNS04'', ''construction''),
      (''CNS05'', ''manufacturing''),
      (''CNS06'', ''wholesale_trade''),
      (''CNS07'', ''retail_trade''),
      (''CNS08'', ''transportation_warehousing''),
      (''CNS09'', ''information''),
      (''CNS10'', ''finance_insurance''),
      (''CNS11'', ''real_estate''),
      (''CNS12'', ''technical_services''),
      (''CNS13'', ''management''),
      (''CNS14'', ''waste_management''),
      (''CNS15'', ''educational_services''),
      (''CNS16'', ''healthcare_social_services''),
      (''CNS17'', ''arts_entertainment_recreation''),
      (''CNS18'', ''accommodation_food_services''),
      (''CNS19'', ''other_services''),
      (''CNS20'', ''public_administration''),
      (''CR01'', ''white_alone''),
      (''CR02'', ''black_alone''),
      (''CR03'', ''american_indian_and_alaska_native''),
      (''CR04'', ''asian_alone''),
      (''CR05'', ''native_hawaiian_and_pacific_islander''),
      (''CR07'', ''two_or_more_races''),
      (''CT01'', ''not_latino''),
      (''CT02'', ''latino_alone''),
      (''CD01'', ''less_than_high_school''),
      (''CD02'', ''high_school_graduate''),
      (''CD03'', ''some_college''),
      (''CD04'', ''bachelors_or_higher''),
      (''CS01'', ''total_jobs_male''),
      (''CS02'', ''total_jobs_female''),
      (''CFA01'', ''firm_age_0_to_1''),
      (''CFA02'', ''firm_age_2_to_3''),
      (''CFA03'', ''firm_age_4_to_5''),
      (''CFA04'', ''firm_age_6_to_10''),
      (''CFA05'', ''firm_age_11_or_more''),
      (''CFS01'', ''firm_size_0_to_19''),
      (''CFS02'', ''firm_size_20_to_49''),
      (''CFS03'', ''firm_size_50_to_249''),
      (''CFS04'', ''firm_size_250_to_499''),
      (''CFS05'', ''firm_size_500_or_more'')]"

text \<open>The older module revision (\<open>econ/lodes_long.py\<close>) spells one descriptive name differently.\<close>

definition RAW_FIELDS_econ :: "(string \<times> string) list" where
  "RAW_FIELDS_econ =
     map (\<lambda>kv. if fst kv = ''CNS17'' then (''CNS17'', ''ars_entertainment_recreation'') else kv)
       RAW_FIELDS"

text \<open>
  The outside world: \<open>pd.read_csv\<close> by URL and the tract reference \<open>CensusTracts.get\<close>
  (called with a year, or with no argument by the older revision).  Both may fail; the
  failure propagates.
\<close>

record env =
  read_csv :: "string \<Rightarrow> error + frame"
  CensusTracts_get :: "int option \<Rightarrow> error + frame"

definition fetch_csv :: "env \<Rightarrow> string \<Rightarrow> (error + frame) \<times> io_event list" where
  "fetch_csv e url = (read_csv e url, [ReadCsv url])"

definition fetch_tracts :: "env \<Rightarrow> int option \<Rightarrow> (error + frame) \<times> io_event list" where
  "fetch_tracts e y = (CensusTracts_get e y, [TractsGet y])"

text \<open>\<open>df.assign(c=lambda df: df.c.astype(str))\<close>; \<open>df.c\<close> raises when there is no such column.\<close>

definition astype_col :: "string \<Rightarrow> frame \<Rightarrow> error + frame" where
  "astype_col c f =
     (if c \<notin> set (columns f) then Inl (AttributeError c)
      else Inr (assign_col c (map VStr (astype_str (column f c))) f))"

text \<open>
  \<open>pd.read_csv(filename).rename(columns={"h_geocode": "geo_id", "w_geocode": "geo_id"})
     .assign(geo_id=lambda df: df.geo_id.astype(str).str.slice(0, 11))\<close>:
  with no \<open>geo_id\<close> column \<open>df.geo_id\<close> raises, with two it is a table, which has no \<open>.str\<close>.
\<close>

definition normalise_geocode :: "frame \<Rightarrow> error + frame" where
  "normalise_geocode raw =
     (let d = rename_columns (rename_by [(''h_geocode'', ''geo_id''), (''w_geocode'', ''geo_id'')]) raw
      in if count_list (columns d) ''geo_id'' \<noteq> 1 then Inl (AttributeError ''geo_id'')
         else Inr (assign_col ''geo_id''
                     (map (\<lambda>s. VStr (take 11 s)) (astype_str (column d ''geo_id''))) d))"

text \<open>\<open>CensusTracts.get(...).assign(geo_id=lambda df: df.geo_id.astype(str))\<close>\<close>

definition tracts_as_str :: "frame \<Rightarrow> error + frame" where
  "tracts_as_str t = astype_col ''geo_id'' t"

text \<open>\<open>cols = [col for col in data.columns if col in cls.RAW_FIELDS]\<close>\<close>

definition longform_cols :: "(string \<times> string) list \<Rightarrow> frame \<Rightarrow> string list" where
  "longform_cols catalog data = filter (\<lambda>col. col \<in> set (map fst catalog)) (columns data)"

text \<open>Lines 121 to 131 of \<open>download\<close>: group, join with the tracts, rename, prune, sort.\<close>

definition longform_reshape :: "(string \<times> string) list \<Rightarrow> frame \<Rightarrow> frame \<Rightarrow> error + frame" where
  "longform_reshape catalog data tracts =
     bind_err (groupby_sum [''geo_id''] (longform_cols catalog data) data) (\<lambda>N.
     bind_err (merge Inner ''geo_id'' ''geo_id'' tracts N) (\<lambda>m.
     bind_err (sort_values ''geo_id'' (drop_zero_columns (rename_columns (rename_by catalog) m)))
       (\<lambda>s. Inr (reset_index s))))"

definition longform_filename :: "string \<Rightarrow> string \<Rightarrow> int \<Rightarrow> string" where
  "longform_filename key jt year =
     URL @ ''/'' @ key @ ''/pa_'' @ key @ ''_S000_'' @ jt @ ''_'' @ str_int year @ ''.csv.gz''"

definition longform_download ::
  "(string \<times> string) list \<Rightarrow> bool \<Rightarrow> env \<Rightarrow> string \<Rightarrow> int \<Rightarrow> string
     \<Rightarrow> (error + frame) \<times> io_event list" where
  "longform_download catalog with_year e key year job_type =
     (if year \<notin> set YEARS then
        (Inl (ValueError (''Valid years are: '' @ py_list (map str_int YEARS))), [])
      else if key \<notin> set [''wac'', ''rac''] then
        (Inl (ValueError (''valid column names are '' @ py_quote ''wac'' @ '' or '' @ py_quote ''rac'')), [])
      else case map_of allowed_job_types job_type of
        None \<Rightarrow>
          (Inl (ValueError (''Allowed job types: '' @ py_list (map (py_quote \<circ> fst) allowed_job_types))), [])
      | Some jt \<Rightarrow>
          (let filename = longform_filename key jt year;
               ty = (if with_year then Some year else None)
           in bind_io (fetch_csv e filename) (\<lambda>raw.
              bind_io (pure_io (normalise_geocode raw)) (\<lambda>data.
              bind_io (fetch_tracts e ty) (\<lambda>t.
              pure_io (bind_err (tracts_as_str t) (longform_reshape catalog data)))))))"

text \<open>\<open>economic/lodes_long.py\<close> and \<open>econ/lodes_long.py\<close>\<close>

definition LongformLODES_download :: "env \<Rightarrow> string \<Rightarrow> int \<Rightarrow> string \<Rightarrow> (error + frame) \<times> io_event list" where
  "LongformLODES_download = longform_download RAW_FIELDS True"

definition LongformLODES_download_econ :: "env \<Rightarrow> string \<Rightarrow> int \<Rightarrow> string \<Rightarrow> (error + frame) \<times> io_event list" where
  "LongformLODES_download_econ = longform_download RAW_FIELDS_econ False"

definition WorkLongformLODES_download :: "env \<Rightarrow> int \<Rightarrow> string \<Rightarrow> (error + frame) \<times> io_event list" where
  "WorkLongformLODES_download e = LongformLODES_download e ''wac''"

definition HomeLongformLODES_download :: "env \<Rightarrow> int \<Rightarrow> string \<Rightarrow> (error + frame) \<times> io_event list" where
  "HomeLongformLODES_download e = LongformLODES_download e ''rac''"

section \<open>The origin-destination summary pipeline\<close>

subsection \<open>More table operations\<close>

text \<open>\<open>pd.concat(frames)\<close>: the union of the columns in order of first appearance, a missing
  cell is NaN, every row keeps its index label.\<close>

definition concat_frames :: "frame list \<Rightarrow> frame" where
  "concat_frames fs =
     (let cs = rev (remdups (rev (concat (map columns fs))))
      in \<lparr>columns = cs,
          rows = concat (map (\<lambda>f. map (\<lambda>ir. (fst ir, row_take cs (snd ir))) (rows f)) fs)\<rparr>)"

text \<open>\<open>col.startswith("S")\<close>\<close>

definition startswith_S :: "string \<Rightarrow> bool" where
  "startswith_S col = (case col of [] \<Rightarrow> False | x # _ \<Rightarrow> x = CHR ''S'')"

text \<open>\<open>series.str.slice(0, 11)\<close> and \<open>series.isin(values)\<close>\<close>

definition str_slice11 :: "val \<Rightarrow> val" where
  "str_slice11 v = (case v of VStr s \<Rightarrow> VStr (take 11 s) | _ \<Rightarrow> VNaN)"

definition isin :: "val list \<Rightarrow> val \<Rightarrow> bool" where
  "isin vs v = (v \<in> set vs)"

text \<open>The regular expression \<open>geo\w+\<close>, searched anywhere in a label.\<close>

definition word_char :: "char \<Rightarrow> bool" where
  "word_char x =
     (x \<in> set ''abcdefghijklmnopqrstuvwxyzABCDEFGHIJKLMNOPQRSTUVWXYZ0123456789_'')"

fun regex_geo :: "string \<Rightarrow> bool" where
  "regex_geo (a # b # c # d # cs) =
     ((a = CHR ''g'' \<and> b = CHR ''e'' \<and> c = CHR ''o'' \<and> word_char d) \<or> regex_geo (b # c # d # cs))"
| "regex_geo _ = False"

definition filter_regex_geo :: "frame \<Rightarrow> frame" where
  "filter_regex_geo f = take_columns (filter regex_geo (columns f)) f"

primrec dedup_rows :: "string \<Rightarrow> val list \<Rightarrow> (nat \<times> row) list \<Rightarrow> (nat \<times> row) list" where
  "dedup_rows c seen [] = []"
| "dedup_rows c seen (ir # irs) =
     (if cellv (snd ir) c \<in> set seen then dedup_rows c seen irs
      else ir # dedup_rows c (cellv (snd ir) c # seen) irs)"

text \<open>\<open>f.drop_duplicates(subset=[c])\<close> keeps the first row of every key.\<close>

definition drop_duplicates :: "string \<Rightarrow> frame \<Rightarrow> error + frame" where
  "drop_duplicates c f =
     (if c \<notin> set (columns f) then Inl (KeyError c)
      else Inr (f\<lparr>rows := dedup_rows c [] (rows f)\<rparr>))"

text \<open>\<open>f.query("is_resident == True")\<close> and \<open>f.query("is_resident == False")\<close>\<close>

definition query_is_resident :: "bool \<Rightarrow> frame \<Rightarrow> error + frame" where
  "query_is_resident b f =
     (if ''is_resident'' \<notin> set (columns f) then Inl (KeyError ''is_resident'')
      else Inr (f\<lparr>rows := filter (\<lambda>ir. cellv (snd ir) ''is_resident'' = VBool b) (rows f)\<rparr>))"

text \<open>\<open>out[name] = out[cs].sum(axis=1)\<close>\<close>

definition add_sum_column :: "string \<Rightarrow> string list \<Rightarrow> frame \<Rightarrow> error + frame" where
  "add_sum_column name cs f =
     (case first_missing cs f of
        Some c \<Rightarrow> Inl (KeyError c)
      | None \<Rightarrow>
          (case those (map (\<lambda>ir. sum_cells (map (cellv (snd ir)) cs)) (rows f)) of
             None \<Rightarrow> Inl TypeError
           | Some sums \<Rightarrow> Inr (assign_col name (map VInt sums) f)))"

subsection \<open>The pipeline\<close>

definition allowed_kinds :: "(string \<times> string) list" where
  "allowed_kinds = [(''work'', ''w_geocode''), (''home'', ''h_geocode'')]"

definition od_rename :: "string \<Rightarrow> (string \<times> string) list" where
  "od_rename tag =
     [(''S000'', tag @ ''_total''),
      (''SA01'', tag @ ''_29_or_younger''),
      (''SA02'', tag @ ''_30_to_54''),
      (''SA03'', tag @ ''_55_or_older''),
      (''SE01'', tag @ ''_1250_or_less''),
      (''SE02'', tag @ ''_1251_to_3333''),
      (''SE03'', tag @ ''_3334_or_more''),
      (''SI01'', tag @ ''_goods_producing''),
      (''SI02'', tag @ ''_trade_transpo_utilities''),
      (''SI03'', tag @ ''_all_other_industries'')]"

definition od_groups :: "string list" where
  "od_groups =
     [''29_or_younger'', ''30_to_54'', ''55_or_older'', ''1250_or_less'', ''1251_to_3333'',
      ''3334_or_more'', ''goods_producing'', ''trade_transpo_utilities'',
      ''all_other_industries'']"

text \<open>
  Lines 68 to 71: the concatenated files with both geocodes as strings.
\<close>

definition od_geocodes :: "frame list \<Rightarrow> error + frame" where
  "od_geocodes parts =
     bind_err (astype_col ''h_geocode'' (concat_frames parts)) (astype_col ''w_geocode'')"

text \<open>
  Lines 72 to 81: \<open>is_resident\<close> starts as \<open>False\<close> everywhere and is set to \<open>True\<close> on the rows
  whose home geocode, cut to 11 characters, is one of the tract ids.
\<close>

definition od_classify :: "frame \<Rightarrow> frame \<Rightarrow> frame" where
  "od_classify data tracts =
     (let data1 = assign_col ''is_resident'' (replicate (length (rows data)) (VBool False)) data;
          residents = map (\<lambda>v. isin (column tracts ''geo_id'') (str_slice11 v))
                        (column data1 ''h_geocode'')
      in assign_col ''is_resident''
           (map (\<lambda>p. if fst p then VBool True else snd p)
              (zip residents (column data1 ''is_resident''))) data1)"

text \<open>\<open>cols = [col for col in data.columns if col.startswith("S")]\<close>\<close>

definition od_cols :: "frame \<Rightarrow> string list" where
  "od_cols data = filter startswith_S (columns data)"

text \<open>Lines 83 to 96: sums per block and resident class, then per tract and resident class.\<close>

definition od_tract_sums :: "string \<Rightarrow> frame \<Rightarrow> frame \<Rightarrow> error + frame" where
  "od_tract_sums k xwalk data =
     bind_err (groupby_sum [k, ''is_resident''] (od_cols data) data) (\<lambda>N.
     bind_err (merge Left k ''tabblk2010'' N xwalk) (\<lambda>N1.
     bind_err (astype_col ''trct'' N1) (\<lambda>N2.
     groupby_sum [''trct'', ''is_resident''] (od_cols data) N2)))"

text \<open>Lines 103 to 107.\<close>

definition od_tags :: "string \<Rightarrow> (string \<times> bool) list" where
  "od_tags k =
     (if k = ''w_geocode'' then [(''resident'', True), (''nonresident'', False)]
      else [(''resident'', True)])"

text \<open>Lines 117 to 135: one inner join per tag.\<close>

fun attach_tags :: "(string \<times> bool) list \<Rightarrow> string list \<Rightarrow> frame \<Rightarrow> frame \<Rightarrow> error + frame" where
  "attach_tags [] cols data out = Inr out"
| "attach_tags (tq # tqs) cols data out =
     bind_err (query_is_resident (snd tq) data) (\<lambda>d.
     bind_err (select_columns (''geo_id'' # cols) d) (\<lambda>sel.
     bind_err (merge Inner ''geo_id'' ''geo_id'' out
                 (rename_columns (rename_by (od_rename (fst tq))) sel))
       (attach_tags tqs cols data)))"

text \<open>Lines 152 to 154.\<close>

fun add_group_totals :: "string list \<Rightarrow> frame \<Rightarrow> error + frame" where
  "add_group_totals [] out = Inr out"
| "add_group_totals (g # gs) out =
     bind_err (add_sum_column (''total_'' @ g) [''resident_'' @ g, ''nonresident_'' @ g] out)
       (add_group_totals gs)"

text \<open>Lines 137 to 154.\<close>

definition od_totals :: "string \<Rightarrow> frame \<Rightarrow> error + frame" where
  "od_totals k out =
     (if k = ''w_geocode'' then
        bind_err (add_sum_column ''total'' [''resident_total'', ''nonresident_total''] out)
          (add_group_totals od_groups)
      else Inr out)"

text \<open>Lines 95 to 156, from the tract reference and the sums per tract and resident class.\<close>

definition od_pivot :: "string \<Rightarrow> string list \<Rightarrow> frame \<Rightarrow> frame \<Rightarrow> error + frame" where
  "od_pivot k cols tracts G =
     bind_err (merge Inner ''geo_id'' ''trct'' tracts G) (\<lambda>data.
     bind_err (drop_duplicates ''geo_id'' (filter_regex_geo data)) (\<lambda>out0.
     bind_err (attach_tags (od_tags k) cols data (reset_index out0)) (\<lambda>out1.
     bind_err (od_totals k out1) (\<lambda>out2.
     bind_err (sort_values ''geo_id'' out2) (\<lambda>s. Inr (reset_index s))))))"

definition od_reshape :: "string \<Rightarrow> frame \<Rightarrow> frame \<Rightarrow> frame \<Rightarrow> error + frame" where
  "od_reshape k xwalk data tracts =
     (let classified = od_classify data tracts
      in bind_err (od_tract_sums k xwalk classified) (od_pivot k (od_cols classified) tracts))"

definition od_filename :: "string \<Rightarrow> string \<Rightarrow> int \<Rightarrow> string" where
  "od_filename part jt year =
     URL @ ''/od/pa_od_'' @ part @ ''_'' @ jt @ ''_'' @ str_int year @ ''.csv.gz''"

definition od_fetch_parts :: "env \<Rightarrow> string \<Rightarrow> string \<Rightarrow> int \<Rightarrow> (error + frame list) \<times> io_event list" where
  "od_fetch_parts e k jt year =
     bind_io (fetch_csv e (od_filename ''main'' jt year)) (\<lambda>main.
       if k = ''w_geocode'' then
         bind_io (fetch_csv e (od_filename ''aux'' jt year)) (\<lambda>aux. pure_io (Inr [main, aux]))
       else pure_io (Inr [main]))"

definition SummaryLODES_download ::
  "env \<Rightarrow> int \<Rightarrow> string \<Rightarrow> string \<Rightarrow> (error + frame) \<times> io_event list" where
  "SummaryLODES_download e year kind job_type =
     (if year \<notin> set YEARS then
        (Inl (ValueError (''Valid years are: '' @ py_list (map str_int YEARS))), [])
      else case map_of allowed_job_types job_type of
        None \<Rightarrow>
          (Inl (ValueError (''Allowed values for '' @ py_quote ''job_type'' @ '': ''
                  @ py_list (map (py_quote \<circ> fst) allowed_job_types))), [])
      | Some jt \<Rightarrow>
          (case map_of allowed_kinds kind of
             None \<Rightarrow>
               (Inl (ValueError (''Allowed values for '' @ py_quote ''kind'' @ '': ''
                       @ py_list (map (py_quote \<circ> fst) allowed_kinds))), [])
           | Some k \<Rightarrow>
               bind_io (fetch_csv e (URL @ ''/pa_xwalk.csv.gz'')) (\<lambda>xw.
               bind_io (pure_io (astype_col ''tabblk2010'' xw)) (\<lambda>xwalk.
               bind_io (od_fetch_parts e k jt year) (\<lambda>parts.
               bind_io (pure_io (od_geocodes parts)) (\<lambda>data.
               bind_io (fetch_tracts e (Some year)) (\<lambda>t.
               pure_io (bind_err (tracts_as_str t) (od_reshape k xwalk data)))))))))"

section \<open>Coarser geographies\<close>

text \<open>
  The crosswalk collaborator, \<open>crosswalk.tracts_to_ntas\<close> and \<open>crosswalk.tracts_to_pumas\<close>:
  tables with the columns \<open>geo_id_tract\<close>, \<open>geo_id_<level>\<close> and \<open>geo_name_<level>\<close>, by
  year (or for the default year).
\<close>

record crosswalks =
  tracts_to_ntas :: "int option \<Rightarrow> error + frame"
  tracts_to_pumas :: "int option \<Rightarrow> error + frame"

text \<open>
  Modelled from the spec: the fetch-or-cache layer \<open>Dataset.get\<close> of \<open>core\<close>, which is not
  under \<open>src/\<close>.  The spec has it hand over the table that \<open>download\<close> produces for the same
  parameters, freshly computed or materialised by an earlier call.
\<close>

definition Dataset_get :: "error + frame \<Rightarrow> bool \<Rightarrow> error + frame" where
  "Dataset_get downloaded fresh = downloaded"

text \<open>\<open>data.drop(labels=[c], axis=1)\<close>\<close>

definition drop_column :: "string \<Rightarrow> frame \<Rightarrow> error + frame" where
  "drop_column c f =
     (if c \<notin> set (columns f) then Inl (KeyError c)
      else Inr (take_columns (filter (\<lambda>k. k \<noteq> c) (columns f)) f))"

definition numeric_columns :: "frame \<Rightarrow> string list" where
  "numeric_columns f = filter (\<lambda>c. list_all is_number (column f c)) (columns f)"

text \<open>
  Modelled from the spec: the aggregation collaborator \<open>analysis.aggregate_count_data\<close>,
  which is not under \<open>src/\<close>.  The spec has it sum all numeric columns per group of the
  group key, keep the identifying columns, and return the units in ascending order of
  their id with a dense row index.
\<close>

definition aggregate_count_data :: "frame \<Rightarrow> string \<Rightarrow> string list \<Rightarrow> error + frame" where
  "aggregate_count_data df by id_vars =
     groupby_sum (by # id_vars)
       (filter (\<lambda>c. c \<notin> set (by # id_vars)) (numeric_columns df)) df"

definition allowed_levels :: "string list" where
  "allowed_levels = [''tract'', ''nta'', ''puma'']"

definition level_message :: string where
  "level_message =
     ''Allowed values for '' @ py_quote ''level'' @ '': '' @ py_list (map py_quote allowed_levels)"

definition level_rename :: "string \<Rightarrow> (string \<times> string) list" where
  "level_rename level =
     [(''geo_id_'' @ level, ''geo_id''), (''geo_name_'' @ level, ''geo_name'')]"

text \<open>
  \<open>LongformLODES.get\<close>, called on one of the two subclasses, which fix \<open>key\<close>; the fetch layer
  calls \<open>download\<close> with the year alone, so the job type is the default \<open>all\<close>.
\<close>

definition LongformLODES_get ::
  "crosswalks \<Rightarrow> env \<Rightarrow> string \<Rightarrow> bool \<Rightarrow> int \<Rightarrow> string \<Rightarrow> error + frame" where
  "LongformLODES_get cw e key fresh year level =
     (if level \<notin> set allowed_levels then Inl (ValueError level_message)
      else
        bind_err (Dataset_get (fst (LongformLODES_download e key year ''all'')) fresh) (\<lambda>data.
          if level = ''tract'' then Inr data
          else
            bind_err (if level = ''nta'' then tracts_to_ntas cw (Some year)
                      else tracts_to_pumas cw (Some year)) (\<lambda>xwalk.
            bind_err (drop_column ''geometry'' data) (\<lambda>d.
            bind_err (merge Left ''geo_id_tract'' ''geo_id'' xwalk d) (\<lambda>merged.
            bind_err (aggregate_count_data merged (''geo_id_'' @ level) [''geo_name_'' @ level])
              (\<lambda>agg. Inr (rename_columns (rename_by (level_rename level)) agg)))))))"

text \<open>
  Modelled from the spec: \<open>aggregate_tracts\<close> of \<open>aggregate\<close>, which is not under \<open>src/\<close>.
  The spec's orchestrator joins the tract table to the crosswalk of the level, hands the
  result to the aggregation collaborator with the keys of the level, and renames the keys
  back to \<open>geo_id\<close> and \<open>geo_name\<close>.
\<close>

definition aggregate_tracts :: "crosswalks \<Rightarrow> frame \<Rightarrow> string \<Rightarrow> error + frame" where
  "aggregate_tracts cw data level =
     bind_err (if level = ''nta'' then tracts_to_ntas cw None else tracts_to_pumas cw None) (\<lambda>xwalk.
     bind_err (drop_column ''geometry'' data) (\<lambda>d.
     bind_err (merge Left ''geo_id_tract'' ''geo_id'' xwalk d) (\<lambda>merged.
     bind_err (aggregate_count_data merged (''geo_id_'' @ level) [''geo_name_'' @ level])
       (\<lambda>agg. Inr (rename_columns (rename_by (level_rename level)) agg)))))"

text \<open>\<open>SummaryLODES.get\<close>\<close>

definition SummaryLODES_get ::
  "crosswalks \<Rightarrow> env \<Rightarrow> bool \<Rightarrow> string \<Rightarrow> int \<Rightarrow> string \<Rightarrow> string \<Rightarrow> error + frame" where
  "SummaryLODES_get cw e fresh kind year level job_type =
     (if level \<notin> set allowed_levels then Inl (ValueError level_message)
      else
        bind_err (Dataset_get (fst (SummaryLODES_download e year kind job_type)) fresh) (\<lambda>data.
          if level \<noteq> ''tract'' then aggregate_tracts cw data level else Inr data))"

section \<open>Vocabulary of the properties\<close>

text \<open>Every row of the table holds, under the label \<open>c\<close>, a cell from \<open>V\<close>.\<close>

definition cells_in :: "string \<Rightarrow> val set \<Rightarrow> frame \<Rightarrow> bool" where
  "cells_in c V f = (\<forall>ir \<in> set (rows f). \<exists>v \<in> V. cell (snd ir) c = Some v)"

text \<open>Every row of the table has exactly the cells that the header names.\<close>

definition wf_frame :: "frame \<Rightarrow> bool" where
  "wf_frame f = list_all (\<lambda>ir. map fst (snd ir) = columns f) (rows f)"

text \<open>The geocodes of a workplace or residence characteristics file, as text.\<close>

definition raw_geocodes :: "frame \<Rightarrow> string list" where
  "raw_geocodes raw =
     astype_str (column
       (rename_columns (rename_by [(''h_geocode'', ''geo_id''), (''w_geocode'', ''geo_id'')]) raw)
       ''geo_id'')"

text \<open>The \<open>geo_id\<close> values of a table, as text.\<close>

definition tract_ids :: "frame \<Rightarrow> string list" where
  "tract_ids t = astype_str (column t ''geo_id'')"

text \<open>
  The cell \<open>c\<close> of a row is the sum of its cells \<open>a\<close> and \<open>b\<close>, read as \<open>sum(axis=1)\<close> reads
  them.
\<close>

definition sums_to :: "row \<Rightarrow> string \<Rightarrow> string \<Rightarrow> string \<Rightarrow> bool" where
  "sums_to r a b c =
     (case (num_of (cellv r a), num_of (cellv r b)) of
        (Some x, Some y) \<Rightarrow> cell r c = Some (VInt (x + y))
      | _ \<Rightarrow> False)"

text \<open>A label that the summary pipeline gives to a non-resident or a combined column.\<close>

definition combined_label :: "string \<Rightarrow> bool" where
  "combined_label c = (prefix ''nonresident_'' c \<or> c = ''total'' \<or> prefix ''total_'' c)"


text \<open>A label that does not begin like a non-resident or a combined column.\<close>

definition plain_label :: "string \<Rightarrow> bool" where
  "plain_label c = (\<not> prefix ''nonresident'' c \<and> \<not> prefix ''total'' c)"

text \<open>The table of sums per tract and resident class has a record of tract \<open>g\<close> in class \<open>b\<close>.\<close>

definition has_class :: "frame \<Rightarrow> val \<Rightarrow> bool \<Rightarrow> bool" where
  "has_class G g b =
     list_ex (\<lambda>ir. cellv (snd ir) ''trct'' = g \<and> cellv (snd ir) ''is_resident'' = VBool b) (rows G)"

section \<open>Concrete inputs\<close>

text \<open>A world in which every fetch fails.\<close>

definition offline_env :: env where
  "offline_env = \<lparr>read_csv = (\<lambda>u. Inl (FetchError u)), CensusTracts_get = (\<lambda>y. Inl (FetchError ''tracts''))\<rparr>"

definition years_message :: string where
  "years_message = ''Valid years are: [2002, 2003, 2004, 2005, 2006, 2007, 2008, 2009, 2010, 2011, 2012, 2013, 2014, 2015, 2016, 2017]''"

definition job_type_names :: "string list" where
  "job_type_names = [''all'', ''primary'', ''private'', ''private_primary'']"

text \<open>
  A small workplace characteristics file, whose count columns are not in the order of the
  catalog and one of which is zero throughout, with a column the catalog does not know;
  a tract reference of three tracts.
\<close>

definition demo_wac :: frame where
  "demo_wac =
     \<lparr>columns = [''w_geocode'', ''CA01'', ''C000'', ''CNS02'', ''createdate''],
      rows = enumerate 0
        [[(''w_geocode'', VInt 421010001001000), (''CA01'', VInt 1), (''C000'', VInt 3),
          (''CNS02'', VInt 0), (''createdate'', VInt 20190826)],
         [(''w_geocode'', VInt 421010001001001), (''CA01'', VInt 2), (''C000'', VInt 4),
          (''CNS02'', VInt 0), (''createdate'', VInt 20190826)],
         [(''w_geocode'', VInt 421010000002000), (''CA01'', VInt 5), (''C000'', VInt 6),
          (''CNS02'', VInt 0), (''createdate'', VInt 20190826)],
         [(''w_geocode'', VInt 420030000002000), (''CA01'', VInt 5), (''C000'', VInt 6),
          (''CNS02'', VInt 0), (''createdate'', VInt 20190826)]]\<rparr>"

definition demo_tracts :: frame where
  "demo_tracts =
     \<lparr>columns = [''geo_id'', ''geo_name'', ''geometry''],
      rows = enumerate 0
        [[(''geo_id'', VInt 42101000100), (''geo_name'', VStr ''1''), (''geometry'', VGeom ''POLYGON A'')],
         [(''geo_id'', VInt 42101000000), (''geo_name'', VStr ''0''), (''geometry'', VGeom ''POLYGON B'')],
         [(''geo_id'', VInt 42101000300), (''geo_name'', VStr ''3''), (''geometry'', VGeom ''POLYGON C'')]]\<rparr>"

definition demo_wac_url :: string where
  "demo_wac_url = ''https://lehd.ces.census.gov/data/lodes/LODES7/pa/wac/pa_wac_S000_JT00_2017.csv.gz''"

definition longform_env :: env where
  "longform_env =
     \<lparr>read_csv = (\<lambda>u. if u = demo_wac_url then Inr demo_wac else Inl (FetchError u)),
      CensusTracts_get = (\<lambda>y. Inr demo_tracts)\<rparr>"

definition longform_demo_out :: frame where
  "longform_demo_out =
     \<lparr>columns = [''geo_id'', ''geo_name'', ''geometry'', ''age_29_or_younger'', ''total_jobs''],
      rows =
        [(0, [(''geo_id'', VStr ''42101000000''), (''geo_name'', VStr ''0''),
              (''geometry'', VGeom ''POLYGON B''), (''age_29_or_younger'', VInt 5),
              (''total_jobs'', VInt 6)]),
         (1, [(''geo_id'', VStr ''42101000100''), (''geo_name'', VStr ''1''),
              (''geometry'', VGeom ''POLYGON A''), (''age_29_or_younger'', VInt 3),
              (''total_jobs'', VInt 7)])]\<rparr>"

text \<open>The same file after the geocode step, its sums per tract, and the tract reference
  with its ids as text.\<close>

definition demo_wac_data :: frame where
  "demo_wac_data =
     \<lparr>columns = [''geo_id'', ''CA01'', ''C000'', ''CNS02'', ''createdate''],
      rows = enumerate 0
        [[(''geo_id'', VStr ''42101000100''), (''CA01'', VInt 1), (''C000'', VInt 3),
          (''CNS02'', VInt 0), (''createdate'', VInt 20190826)],
         [(''geo_id'', VStr ''42101000100''), (''CA01'', VInt 2), (''C000'', VInt 4),
          (''CNS02'', VInt 0), (''createdate'', VInt 20190826)],
         [(''geo_id'', VStr ''42101000000''), (''CA01'', VInt 5), (''C000'', VInt 6),
          (''CNS02'', VInt 0), (''createdate'', VInt 20190826)],
         [(''geo_id'', VStr ''42003000000''), (''CA01'', VInt 5), (''C000'', VInt 6),
          (''CNS02'', VInt 0), (''createdate'', VInt 20190826)]]\<rparr>"

definition demo_wac_sums :: frame where
  "demo_wac_sums =
     \<lparr>columns = [''geo_id'', ''CA01'', ''C000'', ''CNS02''],
      rows = enumerate 0
        [[(''geo_id'', VStr ''42003000000''), (''CA01'', VInt 5), (''C000'', VInt 6), (''CNS02'', VInt 0)],
         [(''geo_id'', VStr ''42101000000''), (''CA01'', VInt 5), (''C000'', VInt 6), (''CNS02'', VInt 0)],
         [(''geo_id'', VStr ''42101000100''), (''CA01'', VInt 3), (''C000'', VInt 7), (''CNS02'', VInt 0)]]\<rparr>"

definition demo_tracts_str :: frame where
  "demo_tracts_str =
     \<lparr>columns = [''geo_id'', ''geo_name'', ''geometry''],
      rows = enumerate 0
        [[(''geo_id'', VStr ''42101000100''), (''geo_name'', VStr ''1''), (''geometry'', VGeom ''POLYGON A'')],
         [(''geo_id'', VStr ''42101000000''), (''geo_name'', VStr ''0''), (''geometry'', VGeom ''POLYGON B'')],
         [(''geo_id'', VStr ''42101000300''), (''geo_name'', VStr ''3''), (''geometry'', VGeom ''POLYGON C'')]]\<rparr>"

text \<open>
  Origin-destination files: three records in the main file, one in the auxiliary file
  (a worker who lives outside the region), a block-to-tract crosswalk and two tracts.
\<close>

definition od_columns :: "string list" where
  "od_columns =
     [''w_geocode'', ''h_geocode'', ''S000'', ''SA01'', ''SA02'', ''SA03'', ''SE01'', ''SE02'',
      ''SE03'', ''SI01'', ''SI02'', ''SI03'', ''createdate'']"

definition od_record :: "val \<Rightarrow> val \<Rightarrow> int list \<Rightarrow> row" where
  "od_record w h ns = zip od_columns ([w, h] @ map VInt ns @ [VInt 20190826])"

definition demo_od_main :: frame where
  "demo_od_main =
     \<lparr>columns = od_columns,
      rows = enumerate 0
        [od_record (VInt 421010001001000) (VInt 421010001001001) [3, 1, 1, 1, 1, 1, 1, 1, 1, 1],
         od_record (VInt 421010001001001) (VInt 421010002001000) [2, 1, 1, 0, 0, 1, 1, 0, 1, 1],
         od_record (VInt 421010002001000) (VInt 421010002001000) [1, 0, 1, 0, 0, 0, 1, 0, 0, 1]]\<rparr>"

definition demo_od_aux :: frame where
  "demo_od_aux =
     \<lparr>columns = od_columns,
      rows = enumerate 0
        [od_record (VInt 421010001001000) (VInt 340010001001001) [5, 2, 2, 1, 1, 2, 2, 1, 2, 2]]\<rparr>"

definition demo_od_data :: frame where
  "demo_od_data =
     \<lparr>columns = od_columns,
      rows =
        [(0, od_record (VStr ''421010001001000'') (VStr ''421010001001001'') [3, 1, 1, 1, 1, 1, 1, 1, 1, 1]),
         (1, od_record (VStr ''421010001001001'') (VStr ''421010002001000'') [2, 1, 1, 0, 0, 1, 1, 0, 1, 1]),
         (2, od_record (VStr ''421010002001000'') (VStr ''421010002001000'') [1, 0, 1, 0, 0, 0, 1, 0, 0, 1]),
         (0, od_record (VStr ''421010001001000'') (VStr ''340010001001001'') [5, 2, 2, 1, 1, 2, 2, 1, 2, 2])]\<rparr>"

definition demo_xwalk :: frame where
  "demo_xwalk =
     \<lparr>columns = [''tabblk2010'', ''trct''],
      rows = enumerate 0
        [[(''tabblk2010'', VInt 421010001001000), (''trct'', VInt 42101000100)],
         [(''tabblk2010'', VInt 421010001001001), (''trct'', VInt 42101000100)],
         [(''tabblk2010'', VInt 421010002001000), (''trct'', VInt 42101000200)]]\<rparr>"

definition demo_od_tracts :: frame where
  "demo_od_tracts =
     \<lparr>columns = [''geo_id'', ''geo_name'', ''geometry''],
      rows = enumerate 0
        [[(''geo_id'', VInt 42101000200), (''geo_name'', VStr ''2''), (''geometry'', VGeom ''POLYGON B'')],
         [(''geo_id'', VInt 42101000100), (''geo_name'', VStr ''1''), (''geometry'', VGeom ''POLYGON A'')]]\<rparr>"

definition demo_od_tracts_str :: frame where
  "demo_od_tracts_str =
     \<lparr>columns = [''geo_id'', ''geo_name'', ''geometry''],
      rows = enumerate 0
        [[(''geo_id'', VStr ''42101000200''), (''geo_name'', VStr ''2''), (''geometry'', VGeom ''POLYGON B'')],
         [(''geo_id'', VStr ''42101000100''), (''geo_name'', VStr ''1''), (''geometry'', VGeom ''POLYGON A'')]]\<rparr>"

definition od_env :: env where
  "od_env =
     \<lparr>read_csv = (\<lambda>u.
        if u = od_filename ''main'' ''JT00'' 2017 then Inr demo_od_main
        else if u = od_filename ''aux'' ''JT00'' 2017 then Inr demo_od_aux
        else if u = URL @ ''/pa_xwalk.csv.gz'' then Inr demo_xwalk
        else Inl (FetchError u)),
      CensusTracts_get = (\<lambda>y. Inr demo_od_tracts)\<rparr>"

text \<open>What the summary pipeline returns for these files, by workplace and by home.\<close>

definition od_labels :: "string \<Rightarrow> string list" where
  "od_labels tag = map snd (od_rename tag)"

definition od_work_columns :: "string list" where
  "od_work_columns =
     [''geo_id'', ''geo_name'', ''geometry''] @ od_labels ''resident'' @ od_labels ''nonresident''
       @ ''total'' # map (\<lambda>g. ''total_'' @ g) od_groups"

definition demo_od_work_out :: frame where
  "demo_od_work_out =
     \<lparr>columns = od_work_columns,
      rows =
        [(0, zip od_work_columns
               ([VStr ''42101000100'', VStr ''1'', VGeom ''POLYGON A'']
                  @ map VInt [5, 2, 2, 1, 1, 2, 2, 1, 2, 2]
                  @ map VInt [5, 2, 2, 1, 1, 2, 2, 1, 2, 2]
                  @ map VInt [10, 4, 4, 2, 2, 4, 4, 2, 4, 4]))]\<rparr>"

definition od_home_columns :: "string list" where
  "od_home_columns = [''geo_id'', ''geo_name'', ''geometry''] @ od_labels ''resident''"

definition demo_od_home_out :: frame where
  "demo_od_home_out =
     \<lparr>columns = od_home_columns,
      rows =
        [(0, zip od_home_columns
               ([VStr ''42101000100'', VStr ''1'', VGeom ''POLYGON A'']
                  @ map VInt [3, 1, 1, 1, 1, 1, 1, 1, 1, 1])),
         (1, zip od_home_columns
               ([VStr ''42101000200'', VStr ''2'', VGeom ''POLYGON B'']
                  @ map VInt [3, 1, 2, 0, 0, 1, 2, 0, 1, 2]))]\<rparr>"

definition od_work_trace :: "io_event list" where
  "od_work_trace =
     [ReadCsv (URL @ ''/pa_xwalk.csv.gz''), ReadCsv (od_filename ''main'' ''JT00'' 2017),
      ReadCsv (od_filename ''aux'' ''JT00'' 2017), TractsGet (Some 2017)]"

definition od_home_trace :: "io_event list" where
  "od_home_trace =
     [ReadCsv (URL @ ''/pa_xwalk.csv.gz''), ReadCsv (od_filename ''main'' ''JT00'' 2017),
      TractsGet (Some 2017)]"

text \<open>The sums per tract and resident class of the same files, by workplace.\<close>

definition od_sums_columns :: "string list" where
  "od_sums_columns =
     [''trct'', ''is_resident'', ''S000'', ''SA01'', ''SA02'', ''SA03'', ''SE01'', ''SE02'',
      ''SE03'', ''SI01'', ''SI02'', ''SI03'']"

definition demo_od_sums :: frame where
  "demo_od_sums =
     \<lparr>columns = od_sums_columns,
      rows = enumerate 0
        [zip od_sums_columns
           ([VStr ''42101000100'', VBool False] @ map VInt [5, 2, 2, 1, 1, 2, 2, 1, 2, 2]),
         zip od_sums_columns
           ([VStr ''42101000100'', VBool True] @ map VInt [5, 2, 2, 1, 1, 2, 2, 1, 2, 2]),
         zip od_sums_columns
           ([VStr ''42101000200'', VBool True] @ map VInt [1, 0, 1, 0, 0, 0, 1, 0, 0, 1])]\<rparr>"

definition demo_xwalk_str :: frame where
  "demo_xwalk_str =
     \<lparr>columns = [''tabblk2010'', ''trct''],
      rows = enumerate 0
        [[(''tabblk2010'', VStr ''421010001001000''), (''trct'', VInt 42101000100)],
         [(''tabblk2010'', VStr ''421010001001001''), (''trct'', VInt 42101000100)],
         [(''tabblk2010'', VStr ''421010002001000''), (''trct'', VInt 42101000200)]]\<rparr>"

text \<open>A crosswalk that puts the tracts of the first example into one neighbourhood.\<close>

definition demo_ntas :: frame where
  "demo_ntas =
     \<lparr>columns = [''geo_id_tract'', ''geo_id_nta'', ''geo_name_nta''],
      rows = enumerate 0
        [[(''geo_id_tract'', VStr ''42101000100''), (''geo_id_nta'', VStr ''N1''),
          (''geo_name_nta'', VStr ''North'')],
         [(''geo_id_tract'', VStr ''42101000000''), (''geo_id_nta'', VStr ''N1''),
          (''geo_name_nta'', VStr ''North'')],
         [(''geo_id_tract'', VStr ''42101000300''), (''geo_id_nta'', VStr ''N0''),
          (''geo_name_nta'', VStr ''Centre'')]]\<rparr>"

definition demo_od_ntas :: frame where
  "demo_od_ntas =
     \<lparr>columns = [''geo_id_tract'', ''geo_id_nta'', ''geo_name_nta''],
      rows = enumerate 0
        [[(''geo_id_tract'', VStr ''42101000200''), (''geo_id_nta'', VStr ''N1''),
          (''geo_name_nta'', VStr ''North'')],
         [(''geo_id_tract'', VStr ''42101000100''), (''geo_id_nta'', VStr ''N1''),
          (''geo_name_nta'', VStr ''North'')]]\<rparr>"

definition demo_crosswalks :: crosswalks where
  "demo_crosswalks =
     \<lparr>tracts_to_ntas = (\<lambda>y. case y of Some _ \<Rightarrow> Inr demo_ntas | None \<Rightarrow> Inr demo_od_ntas),
      tracts_to_pumas = (\<lambda>y. Inl (FetchError ''pumas''))\<rparr>"

text \<open>The two examples at the level of neighbourhoods.\<close>

definition demo_nta_out :: frame where
  "demo_nta_out =
     \<lparr>columns = [''geo_id'', ''geo_name'', ''age_29_or_younger'', ''total_jobs''],
      rows =
        [(0, [(''geo_id'', VStr ''N0''), (''geo_name'', VStr ''Centre''),
              (''age_29_or_younger'', VInt 0), (''total_jobs'', VInt 0)]),
         (1, [(''geo_id'', VStr ''N1''), (''geo_name'', VStr ''North''),
              (''age_29_or_younger'', VInt 8), (''total_jobs'', VInt 13)])]\<rparr>"

definition od_nta_columns :: "string list" where
  "od_nta_columns = [''geo_id'', ''geo_name''] @ od_labels ''resident''"

definition demo_od_nta_out :: frame where
  "demo_od_nta_out =
     \<lparr>columns = od_nta_columns,
      rows =
        [(0, zip od_nta_columns
               ([VStr ''N1'', VStr ''North''] @ map VInt [6, 2, 3, 1, 1, 2, 3, 1, 2, 3]))]\<rparr>"









section \<open>Properties\<close>

subsection \<open>The job-type codes\<close>

text \<open>
  Claim C4.  The job-type table that both pipelines consult is defined on exactly the four
  job types \<open>all\<close>, \<open>primary\<close>, \<open>private\<close>, \<open>private_primary\<close>; it sends them to
  \<open>JT00\<close>, \<open>JT01\<close>, \<open>JT02\<close>, \<open>JT03\<close> in this order, and no two job types share a code.
\<close>

theorem job_type_codes_total_injective:
  "map_of allowed_job_types ''all'' = Some ''JT00''
   \<and> map_of allowed_job_types ''primary'' = Some ''JT01''
   \<and> map_of allowed_job_types ''private'' = Some ''JT02''
   \<and> map_of allowed_job_types ''private_primary'' = Some ''JT03''
   \<and> dom (map_of allowed_job_types) = {''all'', ''primary'', ''private'', ''private_primary''}
   \<and> distinct (map fst allowed_job_types)
   \<and> distinct (map snd allowed_job_types)"
  by (auto simp: allowed_job_types_def split: if_splits)

subsection \<open>Validation\<close>

lemma years_message_eq: "''Valid years are: '' @ py_list (map str_int YEARS) = years_message"
  by code_simp

lemma job_names_eq: "map (py_quote \<circ> fst) allowed_job_types = map py_quote job_type_names"
  by (simp add: allowed_job_types_def job_type_names_def)

lemma kind_names_eq: "map (py_quote \<circ> fst) allowed_kinds = map py_quote [''work'', ''home'']"
  by (simp add: allowed_kinds_def)

lemma job_type_lookup_None: "job_type \<notin> set job_type_names \<Longrightarrow> map_of allowed_job_types job_type = None"
  by (simp add: allowed_job_types_def job_type_names_def)

lemma kind_lookup_None: "kind \<notin> {''work'', ''home''} \<Longrightarrow> map_of allowed_kinds kind = None"
  by (simp add: allowed_kinds_def)

lemma job_type_lookup_Some: "job_type \<in> set job_type_names \<Longrightarrow> \<exists>jt. map_of allowed_job_types job_type = Some jt"
  by (auto simp add: allowed_job_types_def job_type_names_def)

text \<open>
  Claim C2.  An unsupported year, key, job type or kind makes \<open>download\<close> (longform and
  summary) raise \<open>ValueError\<close> with a message that lists the allowed values, and the list
  of fetches is empty: nothing was read and no table is returned.  The checks run in the
  order of the source, so the message is that of the first check that fails.
\<close>

theorem validation_precedes_io:
  "(year \<notin> set YEARS \<longrightarrow>
      LongformLODES_download e key year job_type = (Inl (ValueError years_message), [])
      \<and> SummaryLODES_download e year kind job_type = (Inl (ValueError years_message), []))
   \<and> (year \<in> set YEARS \<and> key \<notin> {''wac'', ''rac''} \<longrightarrow>
      LongformLODES_download e key year job_type =
        (Inl (ValueError (''valid column names are '' @ py_quote ''wac'' @ '' or '' @ py_quote ''rac'')), []))
   \<and> (year \<in> set YEARS \<and> key \<in> {''wac'', ''rac''} \<and> job_type \<notin> set job_type_names \<longrightarrow>
      LongformLODES_download e key year job_type =
        (Inl (ValueError (''Allowed job types: '' @ py_list (map py_quote job_type_names))), []))
   \<and> (year \<in> set YEARS \<and> job_type \<notin> set job_type_names \<longrightarrow>
      SummaryLODES_download e year kind job_type =
        (Inl (ValueError (''Allowed values for '' @ py_quote ''job_type'' @ '': ''
               @ py_list (map py_quote job_type_names))), []))
   \<and> (year \<in> set YEARS \<and> job_type \<in> set job_type_names \<and> kind \<notin> {''work'', ''home''} \<longrightarrow>
      SummaryLODES_download e year kind job_type =
        (Inl (ValueError (''Allowed values for '' @ py_quote ''kind'' @ '': ''
               @ py_list (map py_quote [''work'', ''home'']))), []))"
proof (intro conjI impI)
  assume "year \<notin> set YEARS"
  then show "LongformLODES_download e key year job_type = (Inl (ValueError years_message), [])"
    using years_message_eq by (simp add: LongformLODES_download_def longform_download_def)
next
  assume "year \<notin> set YEARS"
  then show "SummaryLODES_download e year kind job_type = (Inl (ValueError years_message), [])"
    using years_message_eq by (simp add: SummaryLODES_download_def)
next
  assume "year \<in> set YEARS \<and> key \<notin> {''wac'', ''rac''}"
  then show "LongformLODES_download e key year job_type =
        (Inl (ValueError (''valid column names are '' @ py_quote ''wac'' @ '' or '' @ py_quote ''rac'')), [])"
    by (simp add: LongformLODES_download_def longform_download_def)
next
  assume "year \<in> set YEARS \<and> key \<in> {''wac'', ''rac''} \<and> job_type \<notin> set job_type_names"
  then show "LongformLODES_download e key year job_type =
        (Inl (ValueError (''Allowed job types: '' @ py_list (map py_quote job_type_names))), [])"
    using job_type_lookup_None [of job_type]
    by (auto simp add: LongformLODES_download_def longform_download_def job_names_eq)
next
  assume "year \<in> set YEARS \<and> job_type \<notin> set job_type_names"
  then show "SummaryLODES_download e year kind job_type =
        (Inl (ValueError (''Allowed values for '' @ py_quote ''job_type'' @ '': ''
               @ py_list (map py_quote job_type_names))), [])"
    using job_type_lookup_None [of job_type]
    by (simp add: SummaryLODES_download_def job_names_eq)
next
  assume a: "year \<in> set YEARS \<and> job_type \<in> set job_type_names \<and> kind \<notin> {''work'', ''home''}"
  then obtain jt where "map_of allowed_job_types job_type = Some jt"
    using job_type_lookup_Some by blast
  with a show "SummaryLODES_download e year kind job_type =
        (Inl (ValueError (''Allowed values for '' @ py_quote ''kind'' @ '': ''
               @ py_list (map py_quote [''work'', ''home'']))), [])"
    using kind_lookup_None [of kind]
    by (simp add: SummaryLODES_download_def kind_names_eq)
qed

lemma years_mem: "(2017::int) \<in> set YEARS" "(2018::int) \<notin> set YEARS"
  by (simp_all add: YEARS_def)

theorem validation_precedes_io_witness:
  "LongformLODES_download offline_env ''wac'' 2018 ''all'' = (Inl (ValueError years_message), [])
   \<and> SummaryLODES_download offline_env 2018 ''work'' ''all'' = (Inl (ValueError years_message), [])
   \<and> LongformLODES_download offline_env ''od'' 2017 ''all'' =
        (Inl (ValueError (''valid column names are '' @ py_quote ''wac'' @ '' or '' @ py_quote ''rac'')), [])
   \<and> LongformLODES_download offline_env ''wac'' 2017 ''seasonal'' =
        (Inl (ValueError (''Allowed job types: '' @ py_list (map py_quote job_type_names))), [])
   \<and> SummaryLODES_download offline_env 2017 ''work'' ''seasonal'' =
        (Inl (ValueError (''Allowed values for '' @ py_quote ''job_type'' @ '': ''
               @ py_list (map py_quote job_type_names))), [])
   \<and> SummaryLODES_download offline_env 2017 ''school'' ''all'' =
        (Inl (ValueError (''Allowed values for '' @ py_quote ''kind'' @ '': ''
               @ py_list (map py_quote [''work'', ''home'']))), [])"
  using validation_precedes_io [of 2018 offline_env "''wac''" "''all''" "''work''"]
    validation_precedes_io [of 2017 offline_env "''od''" "''all''" "''work''"]
    validation_precedes_io [of 2017 offline_env "''wac''" "''seasonal''" "''work''"]
    validation_precedes_io [of 2017 offline_env "''wac''" "''all''" "''school''"]
    years_mem
  by (simp add: job_type_names_def)

subsection \<open>Cells, rows and columns\<close>

lemma bind_err_Inr: "bind_err x f = Inr y \<longleftrightarrow> (\<exists>v. x = Inr v \<and> f v = Inr y)"
  by (cases x) (simp_all add: bind_err_def)

lemma bind_io_Inr: "fst (bind_io m f) = Inr y \<longleftrightarrow> (\<exists>v. fst m = Inr v \<and> fst (f v) = Inr y)"
  by (cases "fst m") (simp_all add: bind_io_def)

lemma fst_pure_io: "fst (pure_io x) = x"
  by (simp add: pure_io_def)

lemma cell_row_take: "c \<in> set cs \<Longrightarrow> cell (row_take cs r) c = Some (cellv r c)"
  by (induction cs) (auto simp: row_take_def cell_def)

lemma cell_row_take_None: "c \<notin> set cs \<Longrightarrow> cell (row_take cs r) c = None"
  by (induction cs) (auto simp: row_take_def cell_def)

lemma cellv_row_take: "c \<in> set cs \<Longrightarrow> cellv (row_take cs r) c = cellv r c"
  by (simp add: cellv_def cell_row_take)

lemma keys_row_take: "map fst (row_take cs r) = cs"
  by (simp add: row_take_def comp_def)

lemma cell_rename_row:
  "ren c = c \<Longrightarrow> (\<And>k. ren k = c \<Longrightarrow> k = c) \<Longrightarrow> cell (rename_row ren r) c = cell r c"
  by (induction r) (auto simp: rename_row_def cell_def)

lemma cell_rename_row_None:
  "(\<And>k. k \<in> set (map fst r) \<Longrightarrow> ren k \<noteq> c) \<Longrightarrow> cell (rename_row ren r) c = None"
  by (induction r) (auto simp: rename_row_def cell_def)

lemma keys_rename_row: "map fst (rename_row ren r) = map ren (map fst r)"
  by (simp add: rename_row_def comp_def)

lemma cell_append: "cell (l @ r) c = (case cell l c of Some v \<Rightarrow> Some v | None \<Rightarrow> cell r c)"
  by (simp add: cell_def map_add_def split: option.splits)

lemma cell_None_iff: "cell r c = None \<longleftrightarrow> c \<notin> set (map fst r)"
  by (simp add: cell_def map_of_eq_None_iff)

lemma cellv_row_set_same: "cellv (row_set c v r) c = v"
proof (cases "c \<in> set (map fst r)")
  case True
  then have "map_of (map (\<lambda>kv. if fst kv = c then (c, v) else kv) r) c = Some v"
    by (induction r) auto
  with True show ?thesis by (simp add: row_set_def cellv_def cell_def)
next
  case False
  then have "map_of r c = None" by (simp add: map_of_eq_None_iff)
  with False show ?thesis by (simp add: row_set_def cellv_def cell_def map_add_def)
qed

lemma cell_row_set_same: "cell (row_set c v r) c = Some v"
proof (cases "c \<in> set (map fst r)")
  case True
  then have "map_of (map (\<lambda>kv. if fst kv = c then (c, v) else kv) r) c = Some v"
    by (induction r) auto
  with True show ?thesis by (simp add: row_set_def cell_def)
next
  case False
  then have "map_of r c = None" by (simp add: map_of_eq_None_iff)
  with False show ?thesis by (simp add: row_set_def cell_def map_add_def)
qed

lemma cell_row_set_other: "c' \<noteq> c \<Longrightarrow> cell (row_set c v r) c' = cell r c'"
proof (cases "c \<in> set (map fst r)")
  case True
  assume "c' \<noteq> c"
  then have "map_of (map (\<lambda>kv. if fst kv = c then (c, v) else kv) r) c' = map_of r c'"
    by (induction r) auto
  with True show ?thesis by (simp add: row_set_def cell_def)
next
  case False
  assume "c' \<noteq> c"
  with False show ?thesis by (auto simp add: row_set_def cell_def map_add_def split: option.splits)
qed

lemma cellv_row_set_other: "c' \<noteq> c \<Longrightarrow> cellv (row_set c v r) c' = cellv r c'"
  by (simp add: cellv_def cell_row_set_other)

lemma keys_row_set:
  "map fst (row_set c v r) = (if c \<in> set (map fst r) then map fst r else map fst r @ [c])"
proof -
  have "map fst (map (\<lambda>kv. if fst kv = c then (c, v) else kv) r) = map fst r"
    by (induction r) auto
  then show ?thesis by (simp add: row_set_def)
qed

lemma rows_assign_col:
  assumes "ir' \<in> set (rows (assign_col c vs f))"
  shows "\<exists>ir v. ir \<in> set (rows f) \<and> v \<in> set vs \<and> ir' = (fst ir, row_set c v (snd ir))"
proof -
  from assms obtain p where p: "p \<in> set (zip (rows f) vs)"
    and ir': "ir' = (fst (fst p), row_set c (snd p) (snd (fst p)))"
    by (auto simp: assign_col_def)
  from p have "fst p \<in> set (rows f)" "snd p \<in> set vs"
    by (metis prod.collapse set_zip_leftD, metis prod.collapse set_zip_rightD)
  with ir' show ?thesis by blast
qed

lemma column_assign_col_same:
  assumes "length vs = length (rows f)"
  shows "column (assign_col c vs f) c = vs"
proof -
  have "column (assign_col c vs f) c = map snd (zip (rows f) vs)"
    by (simp add: column_def assign_col_def comp_def cellv_row_set_same)
  with assms show ?thesis by simp
qed

lemma column_assign_col_other:
  assumes "length vs = length (rows f)" and "c' \<noteq> c"
  shows "column (assign_col c vs f) c' = column f c'"
proof -
  have "column (assign_col c vs f) c' = map (\<lambda>ir. cellv (snd ir) c') (map fst (zip (rows f) vs))"
    using assms(2) by (simp add: column_def assign_col_def comp_def cellv_row_set_other)
  with assms(1) show ?thesis by (simp add: column_def)
qed

lemma length_astype_str: "length (astype_str vs) = length vs"
  by (simp add: astype_str_def)

lemma length_column: "length (column f c) = length (rows f)"
  by (simp add: column_def)

lemma column_take_columns: "c \<in> set cs \<Longrightarrow> column (take_columns cs f) c = column f c"
  by (simp add: column_def take_columns_def cellv_row_take)

subsection \<open>Pruning\<close>

lemma columns_drop_zero_columns:
  "columns (drop_zero_columns f) = filter (\<lambda>c. \<not> list_all is_zero (column f c)) (columns f)"
  by (simp add: drop_zero_columns_def take_columns_def)

lemma column_drop_zero_columns:
  "c \<in> set (columns (drop_zero_columns f)) \<Longrightarrow> column (drop_zero_columns f) c = column f c"
  unfolding drop_zero_columns_def by (rule column_take_columns) (simp add: take_columns_def)

lemma row_take_idem: "row_take cs (row_take cs r) = row_take cs r"
  by (simp add: row_take_def cellv_row_take [unfolded row_take_def])

lemma take_columns_idem: "take_columns cs (take_columns cs f) = take_columns cs f"
  by (simp add: take_columns_def comp_def row_take_idem)

lemma drop_zero_columns_idem: "drop_zero_columns (drop_zero_columns f) = drop_zero_columns f"
proof -
  let ?keep = "filter (\<lambda>c. \<not> list_all is_zero (column f c)) (columns f)"
  have "filter (\<lambda>c. \<not> list_all is_zero (column (drop_zero_columns f) c)) ?keep = ?keep"
  proof -
    have "\<And>c. c \<in> set ?keep \<Longrightarrow>
        (\<not> list_all is_zero (column (drop_zero_columns f) c)) = (\<not> list_all is_zero (column f c))"
      using column_drop_zero_columns [of _ f] by (simp add: columns_drop_zero_columns)
    then have "filter (\<lambda>c. \<not> list_all is_zero (column (drop_zero_columns f) c)) ?keep
        = filter (\<lambda>c. \<not> list_all is_zero (column f c)) ?keep"
      by (intro filter_cong) auto
    then show ?thesis by simp
  qed
  then have "drop_zero_columns (drop_zero_columns f) = take_columns ?keep (drop_zero_columns f)"
    by (simp add: drop_zero_columns_def [of "drop_zero_columns f"] columns_drop_zero_columns)
  then show ?thesis
    by (simp add: drop_zero_columns_def [of f] take_columns_idem)
qed

lemma no_zero_column_after_pruning:
  "list_all (\<lambda>c. \<not> list_all is_zero (column (drop_zero_columns f) c)) (columns (drop_zero_columns f))"
  unfolding list_all_iff
proof
  fix c assume c: "c \<in> set (columns (drop_zero_columns f))"
  then have "\<not> list_all is_zero (column f c)" by (simp add: columns_drop_zero_columns)
  with c show "\<not> (\<forall>x\<in>set (column (drop_zero_columns f) c). is_zero x)"
    by (simp add: column_drop_zero_columns list_all_iff)
qed

subsection \<open>Sorting and the row index\<close>

lemma sort_values_Inr:
  "sort_values c f = Inr s \<Longrightarrow>
     c \<in> set (columns f) \<and> columns s = columns f
     \<and> rows s = sort_key (\<lambda>ir. val_key (cellv (snd ir) c)) (rows f)"
  by (auto simp: sort_values_def split: if_splits)

lemma set_rows_sort_values: "sort_values c f = Inr s \<Longrightarrow> set (rows s) = set (rows f)"
  by (auto dest!: sort_values_Inr)

lemma columns_reset_index: "columns (reset_index f) = columns f"
  by (simp add: reset_index_def)

lemma snd_rows_reset_index: "map snd (rows (reset_index f)) = map snd (rows f)"
  by (simp add: reset_index_def)

lemma index_reset_index: "map fst (rows (reset_index f)) = [0..<length (rows (reset_index f))]"
  by (simp add: reset_index_def)

lemma column_snd: "column f c = map (\<lambda>r. cellv r c) (map snd (rows f))"
  by (simp add: column_def comp_def)

lemma column_reset_index: "column (reset_index f) c = column f c"
  by (simp add: column_snd snd_rows_reset_index)

lemma sorted_column_sort_values:
  assumes "sort_values c f = Inr s"
  shows "sorted (map val_key (column s c))"
proof -
  have "map val_key (column s c) = map (\<lambda>ir. val_key (cellv (snd ir) c)) (rows s)"
    by (simp add: column_def comp_def)
  with sort_values_Inr [OF assms] show ?thesis by simp
qed

lemma set_column_sort_values:
  assumes "sort_values c f = Inr s"
  shows "set (column s c') = set (column f c')"
  using set_rows_sort_values [OF assms] by (simp add: column_def)

lemma sorted_val_key_VStr: "sorted (map val_key (map VStr gs)) \<longleftrightarrow> sorted gs"
  by (induction gs) (auto simp: less_eq_prod_def)

subsection \<open>Group-by\<close>

lemma those_Some: "those xs = Some ys \<Longrightarrow> xs = map Some ys"
  by (induction xs arbitrary: ys) (auto split: option.splits)

lemma those_Some_length: "those xs = Some ys \<Longrightarrow> length ys = length xs"
  by (drule those_Some) simp

lemma first_missing_None: "first_missing cs f = None \<longleftrightarrow> set cs \<subseteq> set (columns f)"
  by (auto simp: first_missing_def find_None_iff)

lemma cell_zip_map: "cell (zip ks (map g ks)) k = (if k \<in> set ks then Some (g k) else None)"
  by (induction ks) (auto simp: cell_def)

lemma group_row_Some:
  assumes "group_row ks cs rs (row_key ks r) = Some x"
  shows "map fst x = ks @ cs" and "\<And>k. k \<in> set ks \<Longrightarrow> cell x k = Some (cellv r k)"
proof -
  from assms obtain sums where
    sums: "those (map (\<lambda>c. sum_cells (map (\<lambda>r. cellv r c) (filter (\<lambda>r'. row_key ks r' = row_key ks r) rs))) cs) = Some sums"
    and x: "x = zip ks (row_key ks r) @ zip cs (map VInt sums)"
    by (auto simp: group_row_def Let_def)
  from those_Some_length [OF sums] have len: "length sums = length cs" by simp
  show "map fst x = ks @ cs"
    using len by (simp add: x row_key_def)
  show "\<And>k. k \<in> set ks \<Longrightarrow> cell x k = Some (cellv r k)"
    by (simp add: x row_key_def cell_append cell_zip_map)
qed

lemma groupby_sum_Inr:
  assumes "groupby_sum ks cs f = Inr N"
  shows "columns N = ks @ cs"
    and "\<And>x. x \<in> set (rows N) \<Longrightarrow> map fst (snd x) = ks @ cs"
    and "\<And>x. x \<in> set (rows N) \<Longrightarrow>
           \<exists>r \<in> set (map snd (rows f)). \<forall>k \<in> set ks. cell (snd x) k = Some (cellv r k)"
proof -
  let ?rs = "filter (\<lambda>r. VNaN \<notin> set (row_key ks r)) (map snd (rows f))"
  from assms obtain out where
    out: "those (map (group_row ks cs ?rs) (group_keys ks ?rs)) = Some out"
    and N: "N = \<lparr>columns = ks @ cs, rows = enumerate 0 out\<rparr>"
    by (auto simp: groupby_sum_def Let_def split: option.splits)
  show "columns N = ks @ cs" by (simp add: N)
  have each: "\<exists>r \<in> set ?rs. group_row ks cs ?rs (row_key ks r) = Some y" if "y \<in> set out" for y
  proof -
    from those_Some [OF out] that have "Some y \<in> set (map (group_row ks cs ?rs) (group_keys ks ?rs))"
      by auto
    then obtain k where k: "k \<in> set (group_keys ks ?rs)" and y: "group_row ks cs ?rs k = Some y"
      by auto
    from k obtain r where "r \<in> set ?rs" "k = row_key ks r"
      by (auto simp: group_keys_def)
    with y show ?thesis by blast
  qed
  { fix x assume "x \<in> set (rows N)"
    moreover have "map snd (rows N) = out" by (simp add: N)
    ultimately have "snd x \<in> set out" by (metis imageI set_map)
    from each [OF this] obtain r where r: "r \<in> set ?rs"
      and g: "group_row ks cs ?rs (row_key ks r) = Some (snd x)" by blast
    from group_row_Some [OF g] r
    have "map fst (snd x) = ks @ cs"
      and "\<exists>r \<in> set (map snd (rows f)). \<forall>k \<in> set ks. cell (snd x) k = Some (cellv r k)"
      by auto }
  then show "\<And>x. x \<in> set (rows N) \<Longrightarrow> map fst (snd x) = ks @ cs"
    and "\<And>x. x \<in> set (rows N) \<Longrightarrow>
           \<exists>r \<in> set (map snd (rows f)). \<forall>k \<in> set ks. cell (snd x) k = Some (cellv r k)"
    by blast+
qed

subsection \<open>Merge\<close>

lemma suffix_overlap_last:
  "last c \<noteq> last sfx \<Longrightarrow> sfx \<noteq> [] \<Longrightarrow> suffix_overlap ov sfx k = c \<Longrightarrow> k = c \<and> c \<notin> set ov"
  by (auto simp: suffix_overlap_def split: if_splits)

lemma suffix_overlap_id: "c \<notin> set ov \<Longrightarrow> suffix_overlap ov sfx c = c"
  by (simp add: suffix_overlap_def)

lemma cell_merge_left_row:
  assumes "last c \<noteq> CHR ''x''" and "c \<notin> set ov"
  shows "cell (merge_left_row ov l) c = cell l c"
  unfolding merge_left_row_def
proof (rule cell_rename_row)
  show "suffix_overlap ov ''_x'' c = c" using assms(2) by (rule suffix_overlap_id)
  show "\<And>k. suffix_overlap ov ''_x'' k = c \<Longrightarrow> k = c"
    using suffix_overlap_last [of c "''_x''" ov] assms(1) by simp
qed

lemma cell_merge_left_row_None:
  assumes "last c \<noteq> CHR ''x''" and "c \<in> set ov"
  shows "cell (merge_left_row ov l) c = None"
  unfolding merge_left_row_def
proof (rule cell_rename_row_None)
  fix k show "suffix_overlap ov ''_x'' k \<noteq> c"
    using suffix_overlap_last [of c "''_x''" ov k] assms by auto
qed

lemma cell_merge_right_row:
  assumes "last c \<noteq> CHR ''y''"
  shows "cell (merge_right_row ov rcols r) c =
           (if c \<in> set rcols \<and> c \<notin> set ov then Some (cellv r c) else None)"
proof (cases "c \<in> set rcols \<and> c \<notin> set ov")
  case True
  have "cell (rename_row (suffix_overlap ov ''_y'') (row_take rcols r)) c = cell (row_take rcols r) c"
  proof (rule cell_rename_row)
    show "suffix_overlap ov ''_y'' c = c" using True by (simp add: suffix_overlap_id)
    show "\<And>k. suffix_overlap ov ''_y'' k = c \<Longrightarrow> k = c"
      using suffix_overlap_last [of c "''_y''" ov] assms by simp
  qed
  with True show ?thesis by (simp add: merge_right_row_def cell_row_take)
next
  case False
  have "cell (rename_row (suffix_overlap ov ''_y'') (row_take rcols r)) c = None"
  proof (rule cell_rename_row_None)
    fix k assume "k \<in> set (map fst (row_take rcols r))"
    then have k: "k \<in> set rcols" by (simp add: keys_row_take)
    show "suffix_overlap ov ''_y'' k \<noteq> c"
      using suffix_overlap_last [of c "''_y''" ov k] assms False k by auto
  qed
  with False show ?thesis by (simp add: merge_right_row_def)
qed

lemma merge_Inr:
  assumes "merge h lk rk L R = Inr m"
  shows "lk \<in> set (columns L)" and "rk \<in> set (columns R)"
    and "columns m = map (suffix_overlap (merge_overlap lk rk L R) ''_x'') (columns L)
                       @ map (suffix_overlap (merge_overlap lk rk L R) ''_y'') (merge_rcols lk rk R)"
    and "map snd (rows m) = concat (map (merge_matches h lk rk (merge_overlap lk rk L R)
                                (merge_rcols lk rk R) (map snd (rows R))) (map snd (rows L)))"
    and "map fst (rows m) = [0..<length (rows m)]"
  using assms by (auto simp: merge_def Let_def split: if_splits)

lemma set_merge_matches_Inner:
  "set (merge_matches Inner lk rk ov rcols rrows l) =
     {merge_left_row ov l @ merge_right_row ov rcols r | r. r \<in> set rrows \<and> cellv r rk = cellv l lk}"
proof (cases "filter (\<lambda>r. cellv r rk = cellv l lk) rrows = []")
  case True
  then have "\<And>r. r \<in> set rrows \<Longrightarrow> cellv r rk \<noteq> cellv l lk"
    by (simp add: filter_empty_conv)
  with True show ?thesis by (auto simp: merge_matches_def)
next
  case False
  then show ?thesis by (auto simp: merge_matches_def Let_def)
qed

lemma merge_Inner_rows:
  assumes "merge Inner lk rk L R = Inr m"
  shows "set (map snd (rows m)) =
     {merge_left_row (merge_overlap lk rk L R) l @ merge_right_row (merge_overlap lk rk L R) (merge_rcols lk rk R) r
        | l r. l \<in> set (map snd (rows L)) \<and> r \<in> set (map snd (rows R)) \<and> cellv r rk = cellv l lk}"
  unfolding merge_Inr(4) [OF assms] set_concat set_map image_image set_merge_matches_Inner
  by blast

subsection \<open>Cells that stay within a set\<close>

lemma cells_inI:
  "(\<And>r. r \<in> snd ` set (rows f) \<Longrightarrow> \<exists>v \<in> V. cell r c = Some v) \<Longrightarrow> cells_in c V f"
  unfolding cells_in_def by (metis imageI)

lemma cells_inD:
  "cells_in c V f \<Longrightarrow> r \<in> snd ` set (rows f) \<Longrightarrow> \<exists>v \<in> V. cell r c = Some v"
  unfolding cells_in_def by blast

lemma cells_in_mono: "cells_in c V f \<Longrightarrow> V \<subseteq> W \<Longrightarrow> cells_in c W f"
  unfolding cells_in_def by blast

lemma cells_in_subrows:
  assumes "cells_in c V f" and "snd ` set (rows g) \<subseteq> snd ` set (rows f)"
  shows "cells_in c V g"
proof (rule cells_inI)
  fix r assume "r \<in> snd ` set (rows g)"
  with assms(2) have "r \<in> snd ` set (rows f)" by blast
  then show "\<exists>v \<in> V. cell r c = Some v" by (rule cells_inD [OF assms(1)])
qed

lemma cells_in_cellv:
  assumes "cells_in c V f" and "r \<in> snd ` set (rows f)"
  shows "cellv r c \<in> V"
  using cells_inD [OF assms] by (auto simp: cellv_def)

lemma set_column: "set (column f c) = (\<lambda>r. cellv r c) ` snd ` set (rows f)"
  by (simp add: column_def image_image)

lemma cells_in_column: "cells_in c V f \<Longrightarrow> set (column f c) \<subseteq> V"
  unfolding set_column using cells_in_cellv by blast

lemma cells_in_assign_col_same: "cells_in c (set vs) (assign_col c vs f)"
  unfolding cells_in_def
proof
  fix ir assume "ir \<in> set (rows (assign_col c vs f))"
  from rows_assign_col [OF this] obtain ir0 v where "v \<in> set vs" "ir = (fst ir0, row_set c v (snd ir0))"
    by blast
  then show "\<exists>v \<in> set vs. cell (snd ir) c = Some v"
    by (auto simp: cell_row_set_same)
qed

lemma cells_in_assign_col_other:
  assumes "cells_in c V f" and "c \<noteq> c'"
  shows "cells_in c V (assign_col c' vs f)"
  unfolding cells_in_def
proof
  fix ir assume "ir \<in> set (rows (assign_col c' vs f))"
  from rows_assign_col [OF this] obtain ir0 v where ir0: "ir0 \<in> set (rows f)"
    and ir: "ir = (fst ir0, row_set c' v (snd ir0))" by blast
  from assms(1) ir0 obtain w where "w \<in> V" "cell (snd ir0) c = Some w"
    by (auto simp: cells_in_def)
  with ir assms(2) show "\<exists>v \<in> V. cell (snd ir) c = Some v"
    by (auto simp: cell_row_set_other)
qed

lemma cells_in_groupby_sum:
  assumes "groupby_sum ks cs f = Inr N" and "k \<in> set ks"
  shows "cells_in k (set (column f k)) N"
  unfolding cells_in_def
proof
  fix x assume "x \<in> set (rows N)"
  from groupby_sum_Inr(3) [OF assms(1) this] assms(2)
  obtain r where "r \<in> set (map snd (rows f))" "cell (snd x) k = Some (cellv r k)" by blast
  then show "\<exists>v \<in> set (column f k). cell (snd x) k = Some v"
    by (simp add: set_column)
qed

lemma not_in_merge_overlap_same_key: "k \<notin> set (merge_overlap k k L R)"
  by (simp add: merge_overlap_def merge_rcols_def)

lemma cell_merge_right_row_same_key:
  "last k \<noteq> CHR ''y'' \<Longrightarrow> cell (merge_right_row ov (merge_rcols k k R) r) k = None"
  by (simp add: cell_merge_right_row merge_rcols_def)

lemma cells_in_merge_same_key:
  assumes m: "merge Inner k k L R = Inr m"
    and k: "last k \<noteq> CHR ''x''"
    and L: "cells_in k V L"
  shows "cells_in k (V \<inter> set (column R k)) m"
proof (rule cells_inI)
  fix y assume "y \<in> snd ` set (rows m)"
  then have "y \<in> set (map snd (rows m))" by simp
  then obtain l r where l: "l \<in> snd ` set (rows L)"
    and r: "r \<in> snd ` set (rows R)" and eq: "cellv r k = cellv l k"
    and y: "y = merge_left_row (merge_overlap k k L R) l
                  @ merge_right_row (merge_overlap k k L R) (merge_rcols k k R) r"
    unfolding merge_Inner_rows [OF m] by auto
  from cells_inD [OF L l] obtain v where v: "v \<in> V" "cell l k = Some v" by blast
  then have "cellv l k = v" by (simp add: cellv_def)
  with eq have "v = cellv r k" by simp
  with r have "v \<in> set (column R k)" unfolding set_column by blast
  moreover have "cell y k = Some v"
    using v by (simp add: y cell_append cell_merge_left_row [OF k not_in_merge_overlap_same_key])
  ultimately show "\<exists>v \<in> V \<inter> set (column R k). cell y k = Some v"
    using v by blast
qed

lemma cells_in_rename_columns:
  assumes "cells_in c V f" and "ren c = c" and "\<And>k. ren k = c \<Longrightarrow> k = c"
  shows "cells_in c V (rename_columns ren f)"
proof (rule cells_inI)
  fix y assume "y \<in> snd ` set (rows (rename_columns ren f))"
  then obtain r where r: "r \<in> snd ` set (rows f)" and y: "y = rename_row ren r"
    by (force simp: rename_columns_def)
  from cells_inD [OF assms(1) r] show "\<exists>v \<in> V. cell y c = Some v"
    by (simp add: y cell_rename_row [of ren, OF assms(2) assms(3)])
qed

lemma cells_in_take_columns:
  assumes "cells_in c V f" and "c \<in> set cs"
  shows "cells_in c V (take_columns cs f)"
proof (rule cells_inI)
  fix y assume "y \<in> snd ` set (rows (take_columns cs f))"
  then obtain r where r: "r \<in> snd ` set (rows f)" and y: "y = row_take cs r"
    by (force simp: take_columns_def)
  from cells_inD [OF assms(1) r] obtain v where "v \<in> V" "cell r c = Some v" by blast
  then show "\<exists>v \<in> V. cell y c = Some v"
    using assms(2) by (auto simp: y cell_row_take cellv_def)
qed

lemma cells_in_sort_values:
  assumes "sort_values k f = Inr s" and "cells_in c V f"
  shows "cells_in c V s"
  using assms(2) by (rule cells_in_subrows) (simp add: set_rows_sort_values [OF assms(1)])

lemma snd_set_rows_reset_index: "snd ` set (rows (reset_index f)) = snd ` set (rows f)"
  using snd_rows_reset_index [of f] by (metis set_map)

lemma cells_in_reset_index:
  assumes "cells_in c V f"
  shows "cells_in c V (reset_index f)"
  using assms by (rule cells_in_subrows) (simp add: snd_set_rows_reset_index)

lemma rename_by_fixes:
  "c \<notin> set (map fst d) \<Longrightarrow> rename_by d c = c"
proof -
  assume "c \<notin> set (map fst d)"
  then have "map_of d c = None" by (simp add: map_of_eq_None_iff)
  then show ?thesis by (simp add: rename_by_def)
qed

lemma rename_by_target:
  assumes "c \<notin> set (map snd d)" and "rename_by d k = c"
  shows "k = c"
proof (cases "map_of d k")
  case None
  with assms(2) show ?thesis by (simp add: rename_by_def)
next
  case (Some n)
  then have "(k, n) \<in> set d" by (rule map_of_SomeD)
  then have "n \<in> set (map snd d)" by force
  moreover from Some assms(2) have "n = c" by (simp add: rename_by_def)
  ultimately show ?thesis using assms(1) by simp
qed

subsection \<open>The stages of the longform pipeline\<close>

lemma astype_col_Inr:
  "astype_col c f = Inr g \<Longrightarrow>
     c \<in> set (columns f) \<and> g = assign_col c (map VStr (astype_str (column f c))) f"
  by (auto simp: astype_col_def split: if_splits)


lemma longform_reshape_Inr:
  assumes "longform_reshape catalog data tracts = Inr out"
  shows "\<exists>N m s. groupby_sum [''geo_id''] (longform_cols catalog data) data = Inr N
           \<and> merge Inner ''geo_id'' ''geo_id'' tracts N = Inr m
           \<and> sort_values ''geo_id'' (drop_zero_columns (rename_columns (rename_by catalog) m)) = Inr s
           \<and> out = reset_index s"
  using assms unfolding longform_reshape_def bind_err_Inr by auto

lemma longform_download_Inr:
  assumes "longform_download catalog wy e key year job_type = (Inr out, tr)"
  shows "\<exists>jt raw data t tracts.
           map_of allowed_job_types job_type = Some jt
           \<and> read_csv e (longform_filename key jt year) = Inr raw
           \<and> normalise_geocode raw = Inr data
           \<and> CensusTracts_get e (if wy then Some year else None) = Inr t
           \<and> tracts_as_str t = Inr tracts
           \<and> longform_reshape catalog data tracts = Inr out"
proof -
  from assms have f: "fst (longform_download catalog wy e key year job_type) = Inr out" by simp
  then obtain jt where jt: "map_of allowed_job_types job_type = Some jt"
    by (auto simp: longform_download_def split: if_splits option.splits)
  with f have "fst (bind_io (fetch_csv e (longform_filename key jt year)) (\<lambda>raw.
              bind_io (pure_io (normalise_geocode raw)) (\<lambda>data.
              bind_io (fetch_tracts e (if wy then Some year else None)) (\<lambda>t.
              pure_io (bind_err (tracts_as_str t) (longform_reshape catalog data)))))) = Inr out"
    by (auto simp: longform_download_def Let_def split: if_splits)
  then show ?thesis
    unfolding bind_io_Inr fst_pure_io bind_err_Inr
    using jt by (auto simp: fetch_csv_def fetch_tracts_def)
qed

lemma geo_id_last: "last ''geo_id'' \<noteq> CHR ''x''" "last ''geo_id'' \<noteq> CHR ''y''"
  by simp_all

lemma longform_reshape_geo_cells:
  assumes r: "longform_reshape catalog data tracts = Inr out"
    and cat: "''geo_id'' \<notin> set (map fst catalog)" "''geo_id'' \<notin> set (map snd catalog)"
    and tr: "cells_in ''geo_id'' V tracts"
  shows "cells_in ''geo_id'' (V \<inter> set (column data ''geo_id'')) out"
proof -
  from longform_reshape_Inr [OF r] obtain N m s where
    N: "groupby_sum [''geo_id''] (longform_cols catalog data) data = Inr N"
    and m: "merge Inner ''geo_id'' ''geo_id'' tracts N = Inr m"
    and s: "sort_values ''geo_id'' (drop_zero_columns (rename_columns (rename_by catalog) m)) = Inr s"
    and out: "out = reset_index s" by blast
  let ?W = "V \<inter> set (column data ''geo_id'')"
  have "cells_in ''geo_id'' (set (column data ''geo_id'')) N"
    using cells_in_groupby_sum [OF N] by simp
  then have "set (column N ''geo_id'') \<subseteq> set (column data ''geo_id'')"
    by (rule cells_in_column)
  moreover have "cells_in ''geo_id'' (V \<inter> set (column N ''geo_id'')) m"
    using m geo_id_last(1) tr by (rule cells_in_merge_same_key)
  ultimately have "cells_in ''geo_id'' ?W m"
    by (auto elim: cells_in_mono)
  then have "cells_in ''geo_id'' ?W (rename_columns (rename_by catalog) m)"
  proof (rule cells_in_rename_columns)
    show "rename_by catalog ''geo_id'' = ''geo_id''" using cat(1) by (rule rename_by_fixes)
    show "\<And>k. rename_by catalog k = ''geo_id'' \<Longrightarrow> k = ''geo_id''"
      using cat(2) by (rule rename_by_target)
  qed
  moreover have "''geo_id'' \<in> set (columns (drop_zero_columns (rename_columns (rename_by catalog) m)))"
    using sort_values_Inr [OF s] by simp
  ultimately have "cells_in ''geo_id'' ?W (drop_zero_columns (rename_columns (rename_by catalog) m))"
    unfolding drop_zero_columns_def
    by (intro cells_in_take_columns) (simp_all add: take_columns_def)
  then show ?thesis
    unfolding out by (intro cells_in_reset_index cells_in_sort_values [OF s])
qed

lemma catalog_has_no_geo_id:
  "''geo_id'' \<notin> set (map fst RAW_FIELDS)" "''geo_id'' \<notin> set (map snd RAW_FIELDS)"
  "''geo_id'' \<notin> set (map fst RAW_FIELDS_econ)" "''geo_id'' \<notin> set (map snd RAW_FIELDS_econ)"
  by (simp_all add: RAW_FIELDS_econ_def RAW_FIELDS_def)

lemma tracts_as_str_cells:
  assumes "tracts_as_str t = Inr tracts"
  shows "cells_in ''geo_id'' (VStr ` set (tract_ids t)) tracts"
proof -
  from assms have "tracts = assign_col ''geo_id'' (map VStr (tract_ids t)) t"
    by (auto simp: tracts_as_str_def tract_ids_def dest: astype_col_Inr)
  then show ?thesis using cells_in_assign_col_same [of "''geo_id''" "map VStr (tract_ids t)" t]
    by simp
qed



lemma astype_str_VStr: "astype_str (map VStr gs) = gs"
  by (simp add: astype_str_def comp_def)

lemma column_of_strings:
  assumes "cells_in c (VStr ` T) f"
  shows "column f c = map VStr (astype_str (column f c))"
proof -
  from cells_in_column [OF assms] have "\<forall>v \<in> set (column f c). \<exists>g. v = VStr g" by blast
  then obtain gs where "column f c = map VStr gs" by (metis ex_map_conv)
  then show ?thesis by (simp add: astype_str_VStr)
qed

lemma longform_reshape_sorted:
  assumes "longform_reshape catalog data tracts = Inr out"
  shows "sorted (map val_key (column out ''geo_id''))" and "map fst (rows out) = [0..<length (rows out)]"
proof -
  from longform_reshape_Inr [OF assms] obtain s f where
    s: "sort_values ''geo_id'' f = Inr s" and out: "out = reset_index s" by blast
  show "sorted (map val_key (column out ''geo_id''))"
    unfolding out column_reset_index using s by (rule sorted_column_sort_values)
  show "map fst (rows out) = [0..<length (rows out)]"
    unfolding out by (rule index_reset_index)
qed

subsection \<open>A run of the longform pipeline\<close>

lemma longform_demo_run:
  "LongformLODES_download longform_env ''wac'' 2017 ''all''
     = (Inr longform_demo_out, [ReadCsv demo_wac_url, TractsGet (Some 2017)])"
  by code_simp

lemma longform_demo_run_econ:
  "LongformLODES_download_econ longform_env ''wac'' 2017 ''all''
     = (Inr longform_demo_out, [ReadCsv demo_wac_url, TractsGet None])"
  by code_simp


lemma longform_demo_geocodes:
  "raw_geocodes demo_wac = [''421010001001000'', ''421010001001001'', ''421010000002000'', ''420030000002000'']"
  "tract_ids demo_tracts = [''42101000100'', ''42101000000'', ''42101000300'']"
  by code_simp+

subsection \<open>The tract id of the longform output\<close>












subsection \<open>Pruning at the end of the longform pipeline\<close>

lemma filter_all: "list_all P xs \<Longrightarrow> filter P xs = xs"
  by (induction xs) auto

lemma drop_zero_columns_fixed:
  assumes nz: "list_all (\<lambda>c. \<not> list_all is_zero (column f c)) (columns f)"
    and rows: "\<And>ir. ir \<in> set (rows f) \<Longrightarrow> row_take (columns f) (snd ir) = snd ir"
  shows "drop_zero_columns f = f"
proof -
  have "map (\<lambda>ir. (fst ir, row_take (columns f) (snd ir))) (rows f) = rows f"
    using rows by (intro map_idI) simp
  then show ?thesis
    by (simp add: drop_zero_columns_def filter_all [OF nz] take_columns_def)
qed

lemma list_all_zero_set: "set xs = set ys \<Longrightarrow> list_all is_zero xs = list_all is_zero ys"
  by (simp add: list_all_iff)

lemma longform_reshape_pruned:
  assumes "longform_reshape catalog data tracts = Inr out"
  shows "list_all (\<lambda>c. \<not> list_all is_zero (column out c)) (columns out)"
    and "drop_zero_columns out = out"
proof -
  from longform_reshape_Inr [OF assms] obtain g s where
    s: "sort_values ''geo_id'' (drop_zero_columns g) = Inr s" and out: "out = reset_index s"
    by blast
  let ?p = "drop_zero_columns g"
  have cols: "columns out = columns ?p"
    using sort_values_Inr [OF s] by (simp add: out columns_reset_index)
  have col: "set (column out c) = set (column ?p c)" for c
    unfolding out column_reset_index using s by (rule set_column_sort_values)
  show nz: "list_all (\<lambda>c. \<not> list_all is_zero (column out c)) (columns out)"
    using no_zero_column_after_pruning [of g]
    by (simp add: cols list_all_zero_set [OF col])
  have "row_take (columns out) (snd ir) = snd ir" if "ir \<in> set (rows out)" for ir
  proof -
    from that have "snd ir \<in> snd ` set (rows ?p)"
      using set_rows_sort_values [OF s] snd_set_rows_reset_index [of s] by (auto simp: out)
    then obtain r where "snd ir = row_take (columns ?p) r"
      by (auto simp: drop_zero_columns_def take_columns_def)
    then show ?thesis by (simp add: cols row_take_idem)
  qed
  with nz show "drop_zero_columns out = out" by (rule drop_zero_columns_fixed)
qed

text \<open>
  Claim C6.  Pruning keeps exactly the columns that are not zero in every row, so no column
  of a pruned table is zero throughout, and pruning a pruned table changes nothing.  The
  table the longform pipeline returns has no column that is zero throughout, and pruning
  it again returns it unchanged.
\<close>

theorem zero_column_pruning_idempotent:
  "drop_zero_columns (drop_zero_columns f) = drop_zero_columns f
   \<and> columns (drop_zero_columns f) = filter (\<lambda>c. \<not> list_all is_zero (column f c)) (columns f)
   \<and> list_all (\<lambda>c. \<not> list_all is_zero (column (drop_zero_columns f) c))
        (columns (drop_zero_columns f))
   \<and> (LongformLODES_download e key year job_type = (Inr out, tr) \<longrightarrow>
        list_all (\<lambda>c. \<not> list_all is_zero (column out c)) (columns out)
        \<and> drop_zero_columns out = out)"
proof (intro conjI impI)
  assume "LongformLODES_download e key year job_type = (Inr out, tr)"
  then obtain data tracts where r: "longform_reshape RAW_FIELDS data tracts = Inr out"
    unfolding LongformLODES_download_def by (blast dest: longform_download_Inr)
  from longform_reshape_pruned [OF r]
  show "list_all (\<lambda>c. \<not> list_all is_zero (column out c)) (columns out)"
    and "drop_zero_columns out = out" .
qed (rule drop_zero_columns_idem columns_drop_zero_columns no_zero_column_after_pruning)+

theorem zero_column_pruning_idempotent_witness:
  "LongformLODES_download longform_env ''wac'' 2017 ''all''
     = (Inr longform_demo_out, [ReadCsv demo_wac_url, TractsGet (Some 2017)])
   \<and> drop_zero_columns longform_demo_out = longform_demo_out
   \<and> columns longform_demo_out
       = [''geo_id'', ''geo_name'', ''geometry'', ''age_29_or_younger'', ''total_jobs'']
   \<and> columns (drop_zero_columns demo_wac) = [''w_geocode'', ''CA01'', ''C000'', ''createdate'']
   \<and> drop_zero_columns (drop_zero_columns demo_wac) = drop_zero_columns demo_wac"
proof -
  have "columns (drop_zero_columns demo_wac) = [''w_geocode'', ''CA01'', ''C000'', ''createdate'']"
    by code_simp
  moreover have "columns longform_demo_out
       = [''geo_id'', ''geo_name'', ''geometry'', ''age_29_or_younger'', ''total_jobs'']"
    by (simp add: longform_demo_out_def)
  ultimately show ?thesis
    using longform_demo_run
      zero_column_pruning_idempotent [of demo_wac longform_env "''wac''" 2017 "''all''"
        longform_demo_out "[ReadCsv demo_wac_url, TractsGet (Some 2017)]"]
    by simp
qed

subsection \<open>The selected count columns\<close>

lemma geo_id_not_in_longform_cols:
  "''geo_id'' \<notin> set (map fst catalog) \<Longrightarrow> ''geo_id'' \<notin> set (longform_cols catalog data)"
  by (auto simp: longform_cols_def)

lemma suffix_overlap_Nil: "suffix_overlap [] sfx = (\<lambda>c. c)"
  by (simp add: suffix_overlap_def fun_eq_iff)

lemma merge_columns_disjoint:
  assumes m: "merge h k k L R = Inr m"
    and disj: "set (columns L) \<inter> set (columns R) \<subseteq> {k}"
  shows "columns m = columns L @ filter (\<lambda>c. c \<noteq> k) (columns R)"
proof -
  have "merge_overlap k k L R = []"
    using disj by (auto simp: merge_overlap_def merge_rcols_def filter_empty_conv)
  with merge_Inr(3) [OF m] show ?thesis
    by (simp add: suffix_overlap_Nil merge_rcols_def)
qed

lemma longform_reshape_columns:
  assumes r: "longform_reshape catalog data tracts = Inr out"
    and cat: "''geo_id'' \<notin> set (map fst catalog)"
    and disj: "set (columns tracts) \<inter> set (longform_cols catalog data) = {}"
  shows "subseq (columns out)
           (map (rename_by catalog) (columns tracts @ longform_cols catalog data))"
proof -
  from longform_reshape_Inr [OF r] obtain N m s where
    N: "groupby_sum [''geo_id''] (longform_cols catalog data) data = Inr N"
    and m: "merge Inner ''geo_id'' ''geo_id'' tracts N = Inr m"
    and s: "sort_values ''geo_id'' (drop_zero_columns (rename_columns (rename_by catalog) m)) = Inr s"
    and out: "out = reset_index s" by blast
  have colsN: "columns N = ''geo_id'' # longform_cols catalog data"
    using groupby_sum_Inr(1) [OF N] by simp
  have "set (columns tracts) \<inter> set (columns N) \<subseteq> {''geo_id''}"
    using disj by (auto simp: colsN)
  from merge_columns_disjoint [OF m this]
  have "columns m = columns tracts @ longform_cols catalog data"
    using geo_id_not_in_longform_cols [OF cat, of data]
    by (auto simp: colsN filter_id_conv)
  moreover have "columns out = columns (drop_zero_columns (rename_columns (rename_by catalog) m))"
    using sort_values_Inr [OF s] by (simp add: out columns_reset_index)
  ultimately show ?thesis
    by (simp add: columns_drop_zero_columns rename_columns_def del: map_append)
qed

text \<open>
  Claim C5, as the code has it.  The columns selected for the sums are the columns of the
  source file whose label is a code of the catalog, in the order in which the file has
  them; a column the catalog does not know is left out and raises nothing.  The grouped
  table has \<open>geo_id\<close> and these columns in this order, and when no column of the tract
  reference bears the label of a selected column, the columns of the output are, in this
  order, among the columns of the tract reference followed by the selected columns under
  their descriptive names.
\<close>

theorem longform_columns_follow_file_order:
  "set (longform_cols catalog data) = set (columns data) \<inter> set (map fst catalog)
   \<and> subseq (longform_cols catalog data) (columns data)
   \<and> (groupby_sum [''geo_id''] (longform_cols catalog data) data = Inr N \<longrightarrow>
        columns N = ''geo_id'' # longform_cols catalog data)
   \<and> (longform_reshape RAW_FIELDS data tracts = Inr out
        \<and> set (columns tracts) \<inter> set (longform_cols RAW_FIELDS data) = {} \<longrightarrow>
        subseq (columns out)
          (map (rename_by RAW_FIELDS) (columns tracts @ longform_cols RAW_FIELDS data)))"
proof (intro conjI impI)
  show "set (longform_cols catalog data) = set (columns data) \<inter> set (map fst catalog)"
    by (auto simp: longform_cols_def)
  show "subseq (longform_cols catalog data) (columns data)"
    by (simp add: longform_cols_def)
next
  assume "groupby_sum [''geo_id''] (longform_cols catalog data) data = Inr N"
  from groupby_sum_Inr(1) [OF this] show "columns N = ''geo_id'' # longform_cols catalog data"
    by simp
next
  assume "longform_reshape RAW_FIELDS data tracts = Inr out
        \<and> set (columns tracts) \<inter> set (longform_cols RAW_FIELDS data) = {}"
  then show "subseq (columns out)
          (map (rename_by RAW_FIELDS) (columns tracts @ longform_cols RAW_FIELDS data))"
    using longform_reshape_columns [OF _ catalog_has_no_geo_id(1)] by blast
qed


lemma longform_demo_stages:
  "normalise_geocode demo_wac = Inr demo_wac_data"
  "tracts_as_str demo_tracts = Inr demo_tracts_str"
  "longform_cols RAW_FIELDS demo_wac_data = [''CA01'', ''C000'', ''CNS02'']"
  "groupby_sum [''geo_id''] [''CA01'', ''C000'', ''CNS02''] demo_wac_data = Inr demo_wac_sums"
  by code_simp+

lemma longform_demo_reshape_run:
  "longform_reshape RAW_FIELDS demo_wac_data demo_tracts_str = Inr longform_demo_out"
  by code_simp

theorem longform_columns_follow_file_order_witness:
  "columns demo_wac_data = [''geo_id'', ''CA01'', ''C000'', ''CNS02'', ''createdate'']
   \<and> longform_cols RAW_FIELDS demo_wac_data = [''CA01'', ''C000'', ''CNS02'']
   \<and> groupby_sum [''geo_id''] [''CA01'', ''C000'', ''CNS02''] demo_wac_data = Inr demo_wac_sums
   \<and> columns demo_wac_sums = [''geo_id'', ''CA01'', ''C000'', ''CNS02'']
   \<and> longform_reshape RAW_FIELDS demo_wac_data demo_tracts_str = Inr longform_demo_out
   \<and> set (columns demo_tracts_str) \<inter> set [''CA01'', ''C000'', ''CNS02''] = {}
   \<and> subseq (columns longform_demo_out)
        (map (rename_by RAW_FIELDS)
           ([''geo_id'', ''geo_name'', ''geometry''] @ [''CA01'', ''C000'', ''CNS02'']))"
proof -
  have c: "columns demo_wac_data = [''geo_id'', ''CA01'', ''C000'', ''CNS02'', ''createdate'']"
    "columns demo_wac_sums = [''geo_id'', ''CA01'', ''C000'', ''CNS02'']"
    "columns demo_tracts_str = [''geo_id'', ''geo_name'', ''geometry'']"
    by (simp_all add: demo_wac_data_def demo_wac_sums_def demo_tracts_str_def)
  have d: "set (columns demo_tracts_str) \<inter> set (longform_cols RAW_FIELDS demo_wac_data) = {}"
    by (simp add: longform_demo_stages(3) c(3))
  have "longform_reshape RAW_FIELDS demo_wac_data demo_tracts_str = Inr longform_demo_out
        \<and> set (columns demo_tracts_str) \<inter> set (longform_cols RAW_FIELDS demo_wac_data) = {} \<longrightarrow>
        subseq (columns longform_demo_out)
          (map (rename_by RAW_FIELDS) (columns demo_tracts_str @ longform_cols RAW_FIELDS demo_wac_data))"
    using longform_columns_follow_file_order
      [of RAW_FIELDS demo_wac_data demo_wac_sums demo_tracts_str longform_demo_out]
    by blast
  with longform_demo_reshape_run d
  have "subseq (columns longform_demo_out)
          (map (rename_by RAW_FIELDS) (columns demo_tracts_str @ longform_cols RAW_FIELDS demo_wac_data))"
    by blast
  then have sub: "subseq (columns longform_demo_out)
        (map (rename_by RAW_FIELDS)
           ([''geo_id'', ''geo_name'', ''geometry''] @ [''CA01'', ''C000'', ''CNS02'']))"
    by (simp only: longform_demo_stages(3) c(3))
  from d have d': "set (columns demo_tracts_str) \<inter> set [''CA01'', ''C000'', ''CNS02''] = {}"
    by (simp only: longform_demo_stages(3))
  show ?thesis
    by (intro conjI c(1) c(2) longform_demo_stages(3) longform_demo_stages(4)
          longform_demo_reshape_run d' sub)
qed

theorem longform_columns_not_in_catalog_order:
  "LongformLODES_download longform_env ''wac'' 2017 ''all''
     = (Inr longform_demo_out, [ReadCsv demo_wac_url, TractsGet (Some 2017)])
   \<and> columns demo_wac = [''w_geocode'', ''CA01'', ''C000'', ''CNS02'', ''createdate'']
   \<and> filter (\<lambda>c. c \<in> set (map snd RAW_FIELDS)) (columns longform_demo_out)
       = [''age_29_or_younger'', ''total_jobs'']
   \<and> filter (\<lambda>n. n \<in> set (columns longform_demo_out)) (map snd RAW_FIELDS)
       = [''total_jobs'', ''age_29_or_younger'']"
proof -
  have "filter (\<lambda>c. c \<in> set (map snd RAW_FIELDS)) (columns longform_demo_out)
       = [''age_29_or_younger'', ''total_jobs'']"
    by code_simp
  moreover have "filter (\<lambda>n. n \<in> set (columns longform_demo_out)) (map snd RAW_FIELDS)
       = [''total_jobs'', ''age_29_or_younger'']"
    by code_simp
  moreover have "columns demo_wac = [''w_geocode'', ''CA01'', ''C000'', ''CNS02'', ''createdate'']"
    by (simp add: demo_wac_def)
  ultimately show ?thesis using longform_demo_run by simp
qed

subsection \<open>The resident classification\<close>

lemma assign_col_rowwise:
  "assign_col c (map g (rows f)) f =
     \<lparr>columns = (if c \<in> set (columns f) then columns f else columns f @ [c]),
      rows = map (\<lambda>ir. (fst ir, row_set c (g ir) (snd ir))) (rows f)\<rparr>"
  by (simp add: assign_col_def zip_map2 zip_same_conv_map comp_def)

lemma column_rowwise: "column f c = map (\<lambda>ir. cellv (snd ir) c) (rows f)"
  by (simp add: column_def)

lemma replicate_rowwise: "replicate (length xs) v = map (\<lambda>_. v) xs"
  by (simp add: map_replicate_const)

lemma od_classify_rows:
  "rows (od_classify data tracts) =
     map (\<lambda>ir. (fst ir,
            row_set ''is_resident''
              (VBool (isin (column tracts ''geo_id'') (str_slice11 (cellv (snd ir) ''h_geocode''))))
              (row_set ''is_resident'' (VBool False) (snd ir)))) (rows data)"
proof -
  let ?d1 = "assign_col ''is_resident'' (replicate (length (rows data)) (VBool False)) data"
  have r1: "rows ?d1 = map (\<lambda>ir. (fst ir, row_set ''is_resident'' (VBool False) (snd ir))) (rows data)"
    by (simp add: replicate_rowwise assign_col_rowwise)
  have vs: "map (\<lambda>p. if fst p then VBool True else snd p)
              (zip (map (\<lambda>v. isin (column tracts ''geo_id'') (str_slice11 v)) (column ?d1 ''h_geocode''))
                   (column ?d1 ''is_resident''))
        = map (\<lambda>ir. VBool (isin (column tracts ''geo_id'') (str_slice11 (cellv (snd ir) ''h_geocode''))))
            (rows ?d1)"
    by (simp add: column_rowwise zip_map_map zip_same_conv_map comp_def r1
          cellv_row_set_same cellv_row_set_other)
  have "rows (od_classify data tracts)
      = map (\<lambda>ir. (fst ir, row_set ''is_resident''
            (VBool (isin (column tracts ''geo_id'') (str_slice11 (cellv (snd ir) ''h_geocode''))))
            (snd ir))) (rows ?d1)"
    unfolding od_classify_def Let_def vs by (simp add: assign_col_rowwise)
  then show ?thesis
    by (simp add: r1 comp_def cellv_row_set_other)
qed

lemma od_classify_cells:
  assumes "ir \<in> set (rows (od_classify data tracts))"
  shows "cellv (snd ir) ''is_resident''
           = VBool (str_slice11 (cellv (snd ir) ''h_geocode'') \<in> set (column tracts ''geo_id''))"
    and "\<exists>r \<in> snd ` set (rows data). cellv (snd ir) ''h_geocode'' = cellv r ''h_geocode''"
proof -
  from assms obtain ir0 where ir0: "ir0 \<in> set (rows data)"
    and ir: "snd ir = row_set ''is_resident''
              (VBool (isin (column tracts ''geo_id'') (str_slice11 (cellv (snd ir0) ''h_geocode''))))
              (row_set ''is_resident'' (VBool False) (snd ir0))"
    unfolding od_classify_rows by auto
  have h: "cellv (snd ir) ''h_geocode'' = cellv (snd ir0) ''h_geocode''"
    by (simp add: ir cellv_row_set_other)
  show "cellv (snd ir) ''is_resident''
           = VBool (str_slice11 (cellv (snd ir) ''h_geocode'') \<in> set (column tracts ''geo_id''))"
    unfolding h by (simp add: ir cellv_row_set_same isin_def)
  from ir0 h show "\<exists>r \<in> snd ` set (rows data). cellv (snd ir) ''h_geocode'' = cellv r ''h_geocode''"
    by blast
qed

lemma od_geocodes_Inr:
  assumes "od_geocodes parts = Inr data"
  shows "cells_in ''h_geocode'' (range VStr) data"
proof -
  from assms obtain d1 where d1: "astype_col ''h_geocode'' (concat_frames parts) = Inr d1"
    and d: "astype_col ''w_geocode'' d1 = Inr data"
    unfolding od_geocodes_def bind_err_Inr by blast
  have "cells_in ''h_geocode'' (set (map VStr (astype_str (column (concat_frames parts) ''h_geocode'')))) d1"
    using astype_col_Inr [OF d1] cells_in_assign_col_same by metis
  then have "cells_in ''h_geocode'' (range VStr) d1"
    by (rule cells_in_mono) auto
  then show ?thesis
    using astype_col_Inr [OF d] by (auto intro: cells_in_assign_col_other)
qed

lemma tracts_as_str_column:
  assumes "tracts_as_str t = Inr tracts"
  shows "column tracts ''geo_id'' = map VStr (tract_ids t)"
proof -
  from assms have "tracts = assign_col ''geo_id'' (map VStr (tract_ids t)) t"
    by (auto simp: tracts_as_str_def tract_ids_def dest: astype_col_Inr)
  then show ?thesis
    by (simp add: column_assign_col_same tract_ids_def length_astype_str length_column)
qed

text \<open>
  Claim C8.  Every record of the concatenated origin-destination files is classified, and
  its \<open>is_resident\<close> is \<open>True\<close> exactly when the first 11 characters of its home geocode are
  among the \<open>geo_id\<close> values of the tract reference, and \<open>False\<close> otherwise.
\<close>

theorem od_is_resident_iff_home_tract_in_reference:
  "length (rows (od_classify data tracts)) = length (rows data)
   \<and> list_all (\<lambda>ir. cellv (snd ir) ''is_resident''
          = VBool (str_slice11 (cellv (snd ir) ''h_geocode'') \<in> set (column tracts ''geo_id'')))
        (rows (od_classify data tracts))
   \<and> (od_geocodes parts = Inr data \<and> tracts_as_str t = Inr tracts \<longrightarrow>
        list_all (\<lambda>ir. \<exists>h. cellv (snd ir) ''h_geocode'' = VStr h
            \<and> cellv (snd ir) ''is_resident'' = VBool (take 11 h \<in> set (tract_ids t)))
          (rows (od_classify data tracts)))"
proof (intro conjI impI)
  show "length (rows (od_classify data tracts)) = length (rows data)"
    by (simp add: od_classify_rows)
  show "list_all (\<lambda>ir. cellv (snd ir) ''is_resident''
          = VBool (str_slice11 (cellv (snd ir) ''h_geocode'') \<in> set (column tracts ''geo_id'')))
        (rows (od_classify data tracts))"
    unfolding list_all_iff using od_classify_cells(1) by blast
next
  assume a: "od_geocodes parts = Inr data \<and> tracts_as_str t = Inr tracts"
  then have h: "cells_in ''h_geocode'' (range VStr) data"
    and col: "column tracts ''geo_id'' = map VStr (tract_ids t)"
    using od_geocodes_Inr tracts_as_str_column by blast+
  show "list_all (\<lambda>ir. \<exists>h. cellv (snd ir) ''h_geocode'' = VStr h
            \<and> cellv (snd ir) ''is_resident'' = VBool (take 11 h \<in> set (tract_ids t)))
          (rows (od_classify data tracts))"
    unfolding list_all_iff
  proof
    fix ir assume ir: "ir \<in> set (rows (od_classify data tracts))"
    from od_classify_cells(2) [OF ir] obtain r where "r \<in> snd ` set (rows data)"
      and "cellv (snd ir) ''h_geocode'' = cellv r ''h_geocode''" by blast
    with cells_in_cellv [OF h] obtain hs where hs: "cellv (snd ir) ''h_geocode'' = VStr hs"
      by fastforce
    with od_classify_cells(1) [OF ir] col
    have "cellv (snd ir) ''is_resident'' = VBool (take 11 hs \<in> set (tract_ids t))"
      by (auto simp: str_slice11_def)
    with hs show "\<exists>h. cellv (snd ir) ''h_geocode'' = VStr h
            \<and> cellv (snd ir) ''is_resident'' = VBool (take 11 h \<in> set (tract_ids t))"
      by blast
  qed
qed

lemma od_demo_inputs:
  "od_geocodes [demo_od_main, demo_od_aux] = Inr demo_od_data"
  "tracts_as_str demo_od_tracts = Inr demo_od_tracts_str"
  "tract_ids demo_od_tracts = [''42101000200'', ''42101000100'']"
  by code_simp+

lemma od_demo_classified:
  "map (\<lambda>ir. (cellv (snd ir) ''h_geocode'', cellv (snd ir) ''is_resident''))
       (rows (od_classify demo_od_data demo_od_tracts_str))
     = [(VStr ''421010001001001'', VBool True), (VStr ''421010002001000'', VBool True),
        (VStr ''421010002001000'', VBool True), (VStr ''340010001001001'', VBool False)]"
  by code_simp

theorem od_is_resident_iff_home_tract_in_reference_witness:
  "od_geocodes [demo_od_main, demo_od_aux] = Inr demo_od_data
   \<and> tracts_as_str demo_od_tracts = Inr demo_od_tracts_str
   \<and> tract_ids demo_od_tracts = [''42101000200'', ''42101000100'']
   \<and> map (\<lambda>ir. (cellv (snd ir) ''h_geocode'', cellv (snd ir) ''is_resident''))
       (rows (od_classify demo_od_data demo_od_tracts_str))
      = [(VStr ''421010001001001'', VBool True), (VStr ''421010002001000'', VBool True),
         (VStr ''421010002001000'', VBool True), (VStr ''340010001001001'', VBool False)]
   \<and> list_all (\<lambda>ir. \<exists>h. cellv (snd ir) ''h_geocode'' = VStr h
            \<and> cellv (snd ir) ''is_resident'' = VBool (take 11 h \<in> set (tract_ids demo_od_tracts)))
          (rows (od_classify demo_od_data demo_od_tracts_str))"
proof -
  have "od_geocodes [demo_od_main, demo_od_aux] = Inr demo_od_data
      \<and> tracts_as_str demo_od_tracts = Inr demo_od_tracts_str \<longrightarrow>
    list_all (\<lambda>ir. \<exists>h. cellv (snd ir) ''h_geocode'' = VStr h
            \<and> cellv (snd ir) ''is_resident'' = VBool (take 11 h \<in> set (tract_ids demo_od_tracts)))
          (rows (od_classify demo_od_data demo_od_tracts_str))"
    using od_is_resident_iff_home_tract_in_reference
      [of demo_od_data demo_od_tracts_str "[demo_od_main, demo_od_aux]" demo_od_tracts]
    by blast
  with od_demo_inputs(1,2)
  have "list_all (\<lambda>ir. \<exists>h. cellv (snd ir) ''h_geocode'' = VStr h
            \<and> cellv (snd ir) ''is_resident'' = VBool (take 11 h \<in> set (tract_ids demo_od_tracts)))
          (rows (od_classify demo_od_data demo_od_tracts_str))"
    by blast
  then show ?thesis
    by (intro conjI od_demo_inputs od_demo_classified)
qed

subsection \<open>The stages of the summary pipeline\<close>

lemma od_pivot_Inr:
  assumes "od_pivot k cols tracts G = Inr out"
  shows "\<exists>data out0 out1 out2 s.
           merge Inner ''geo_id'' ''trct'' tracts G = Inr data
           \<and> drop_duplicates ''geo_id'' (filter_regex_geo data) = Inr out0
           \<and> attach_tags (od_tags k) cols data (reset_index out0) = Inr out1
           \<and> od_totals k out1 = Inr out2
           \<and> sort_values ''geo_id'' out2 = Inr s
           \<and> out = reset_index s"
  using assms unfolding od_pivot_def bind_err_Inr by auto

lemma od_reshape_Inr:
  assumes "od_reshape k xwalk data tracts = Inr out"
  shows "\<exists>G. od_tract_sums k xwalk (od_classify data tracts) = Inr G
           \<and> od_pivot k (od_cols (od_classify data tracts)) tracts G = Inr out"
  using assms unfolding od_reshape_def Let_def bind_err_Inr by auto

lemma od_tract_sums_Inr:
  assumes "od_tract_sums k xwalk data = Inr G"
  shows "columns G = [''trct'', ''is_resident''] @ od_cols data"
  using assms unfolding od_tract_sums_def bind_err_Inr
  by (auto dest: groupby_sum_Inr(1))

lemma SummaryLODES_download_Inr:
  assumes "SummaryLODES_download e year kind job_type = (Inr out, tr)"
  shows "\<exists>jt k xw xwalk parts data t tracts.
           map_of allowed_job_types job_type = Some jt
           \<and> map_of allowed_kinds kind = Some k
           \<and> read_csv e (URL @ ''/pa_xwalk.csv.gz'') = Inr xw
           \<and> astype_col ''tabblk2010'' xw = Inr xwalk
           \<and> fst (od_fetch_parts e k jt year) = Inr parts
           \<and> od_geocodes parts = Inr data
           \<and> CensusTracts_get e (Some year) = Inr t
           \<and> tracts_as_str t = Inr tracts
           \<and> od_reshape k xwalk data tracts = Inr out"
proof -
  from assms have f: "fst (SummaryLODES_download e year kind job_type) = Inr out" by simp
  have y: "year \<in> set YEARS"
    using f by (cases "year \<in> set YEARS") (simp_all add: SummaryLODES_download_def)
  obtain jt where jt: "map_of allowed_job_types job_type = Some jt"
    using f y by (cases "map_of allowed_job_types job_type") (simp_all add: SummaryLODES_download_def)
  obtain k where k: "map_of allowed_kinds kind = Some k"
    using f y jt by (cases "map_of allowed_kinds kind") (simp_all add: SummaryLODES_download_def)
  have "SummaryLODES_download e year kind job_type =
               bind_io (fetch_csv e (URL @ ''/pa_xwalk.csv.gz'')) (\<lambda>xw.
               bind_io (pure_io (astype_col ''tabblk2010'' xw)) (\<lambda>xwalk.
               bind_io (od_fetch_parts e k jt year) (\<lambda>parts.
               bind_io (pure_io (od_geocodes parts)) (\<lambda>data.
               bind_io (fetch_tracts e (Some year)) (\<lambda>t.
               pure_io (bind_err (tracts_as_str t) (od_reshape k xwalk data)))))))"
    unfolding SummaryLODES_download_def using y jt k by simp
  with f have "\<exists>xw xwalk parts data t tracts.
           fst (fetch_csv e (URL @ ''/pa_xwalk.csv.gz'')) = Inr xw
           \<and> astype_col ''tabblk2010'' xw = Inr xwalk
           \<and> fst (od_fetch_parts e k jt year) = Inr parts
           \<and> od_geocodes parts = Inr data
           \<and> fst (fetch_tracts e (Some year)) = Inr t
           \<and> tracts_as_str t = Inr tracts
           \<and> od_reshape k xwalk data tracts = Inr out"
    by (simp only: bind_io_Inr fst_pure_io bind_err_Inr) blast
  then show ?thesis
    using jt k unfolding fetch_csv_def fetch_tracts_def fst_conv by blast
qed

lemma allowed_kinds_lookup:
  "map_of allowed_kinds ''work'' = Some ''w_geocode''"
  "map_of allowed_kinds ''home'' = Some ''h_geocode''"
  by (simp_all add: allowed_kinds_def)

subsection \<open>The tract id through the summary pipeline\<close>

lemma merge_column_origin:
  assumes m: "merge h lk rk L R = Inr m" and c: "c \<in> set (columns m)"
    and last: "last c \<noteq> CHR ''x''" "last c \<noteq> CHR ''y''"
  shows "c \<notin> set (merge_overlap lk rk L R)"
proof -
  from c merge_Inr(3) [OF m] obtain k where
    "suffix_overlap (merge_overlap lk rk L R) ''_x'' k = c
     \<or> suffix_overlap (merge_overlap lk rk L R) ''_y'' k = c" by auto
  then show ?thesis
    using suffix_overlap_last [of c "''_x''" _ k] suffix_overlap_last [of c "''_y''" _ k] last
    by auto
qed

lemma cells_in_merge_left:
  assumes m: "merge Inner lk rk L R = Inr m"
    and c: "c \<notin> set (merge_overlap lk rk L R)" "last c \<noteq> CHR ''x''"
    and L: "cells_in c V L"
  shows "cells_in c V m"
proof (rule cells_inI)
  fix y assume "y \<in> snd ` set (rows m)"
  then have "y \<in> set (map snd (rows m))" by simp
  then obtain l r where l: "l \<in> snd ` set (rows L)"
    and y: "y = merge_left_row (merge_overlap lk rk L R) l
                  @ merge_right_row (merge_overlap lk rk L R) (merge_rcols lk rk R) r"
    unfolding merge_Inner_rows [OF m] by auto
  from cells_inD [OF L l] obtain v where v: "v \<in> V" "cell l c = Some v" by blast
  then have "cell y c = Some v"
    by (simp add: y cell_append cell_merge_left_row [OF c(2) c(1)])
  with v show "\<exists>v \<in> V. cell y c = Some v" by blast
qed

lemma set_dedup_rows: "set (dedup_rows c seen irs) \<subseteq> set irs"
  by (induction irs arbitrary: seen) auto

lemma drop_duplicates_Inr:
  "drop_duplicates c f = Inr g \<Longrightarrow>
     c \<in> set (columns f) \<and> columns g = columns f \<and> rows g = dedup_rows c [] (rows f)"
  by (auto simp: drop_duplicates_def split: if_splits)

lemma cells_in_drop_duplicates:
  assumes "drop_duplicates k f = Inr g" and "cells_in c V f"
  shows "cells_in c V g"
  using assms(2)
proof (rule cells_in_subrows)
  show "snd ` set (rows g) \<subseteq> snd ` set (rows f)"
    using drop_duplicates_Inr [OF assms(1)] set_dedup_rows [of k "[]" "rows f"] by auto
qed

lemma attach_tags_step:
  assumes "attach_tags (tq # tqs) cols data out = Inr out'"
  shows "\<exists>d m. query_is_resident (snd tq) data = Inr d
           \<and> first_missing (''geo_id'' # cols) d = None
           \<and> merge Inner ''geo_id'' ''geo_id'' out
                (rename_columns (rename_by (od_rename (fst tq))) (take_columns (''geo_id'' # cols) d)) = Inr m
           \<and> attach_tags tqs cols data m = Inr out'"
  using assms
  by (auto simp: bind_err_Inr select_columns_def split: option.splits)

lemma cells_in_attach_tags:
  assumes "attach_tags tqs cols data out = Inr out'" and "cells_in ''geo_id'' V out"
  shows "cells_in ''geo_id'' V out'"
  using assms
proof (induction tqs arbitrary: out)
  case Nil
  then show ?case by simp
next
  case (Cons tq tqs)
  from attach_tags_step [OF Cons.prems(1)] obtain R m where
    m: "merge Inner ''geo_id'' ''geo_id'' out R = Inr m"
    and rest: "attach_tags tqs cols data m = Inr out'" by blast
  have "cells_in ''geo_id'' (V \<inter> set (column R ''geo_id'')) m"
    using m geo_id_last(1) Cons.prems(2) by (rule cells_in_merge_same_key)
  then have "cells_in ''geo_id'' V m" by (rule cells_in_mono) simp
  with rest show ?case by (rule Cons.IH)
qed

lemma add_sum_column_Inr:
  assumes "add_sum_column name cs f = Inr g"
  shows "\<exists>sums. those (map (\<lambda>ir. sum_cells (map (cellv (snd ir)) cs)) (rows f)) = Some sums
           \<and> set cs \<subseteq> set (columns f)
           \<and> g = assign_col name (map VInt sums) f"
  using assms
  by (auto simp: add_sum_column_def first_missing_None [symmetric] split: option.splits)

lemma cells_in_add_sum_column:
  assumes "add_sum_column name cs f = Inr g" and "cells_in c V f" and "c \<noteq> name"
  shows "cells_in c V g"
  using add_sum_column_Inr [OF assms(1)] assms(2,3)
  by (auto intro: cells_in_assign_col_other)

lemma total_is_not_geo_id: "''geo_id'' \<noteq> ''total_'' @ g" "''geo_id'' \<noteq> ''total''"
  by simp_all

lemma cells_in_add_group_totals:
  assumes "add_group_totals gs f = Inr g" and "cells_in ''geo_id'' V f"
  shows "cells_in ''geo_id'' V g"
  using assms
proof (induction gs arbitrary: f)
  case Nil
  then show ?case by simp
next
  case (Cons a gs)
  from Cons.prems(1) obtain f1 where
    f1: "add_sum_column (''total_'' @ a) [''resident_'' @ a, ''nonresident_'' @ a] f = Inr f1"
    and rest: "add_group_totals gs f1 = Inr g"
    by (auto simp: bind_err_Inr)
  from f1 Cons.prems(2) total_is_not_geo_id(1) have "cells_in ''geo_id'' V f1"
    by (rule cells_in_add_sum_column)
  with rest show ?case by (rule Cons.IH)
qed

lemma cells_in_od_totals:
  assumes "od_totals k f = Inr g" and "cells_in ''geo_id'' V f"
  shows "cells_in ''geo_id'' V g"
proof (cases "k = ''w_geocode''")
  case True
  with assms(1) obtain f1 where
    f1: "add_sum_column ''total'' [''resident_total'', ''nonresident_total''] f = Inr f1"
    and rest: "add_group_totals od_groups f1 = Inr g"
    by (auto simp: od_totals_def bind_err_Inr)
  from f1 assms(2) total_is_not_geo_id(2) have "cells_in ''geo_id'' V f1"
    by (rule cells_in_add_sum_column)
  with rest show ?thesis by (rule cells_in_add_group_totals)
next
  case False
  with assms show ?thesis by (simp add: od_totals_def)
qed

lemma od_pivot_geo_cells:
  assumes p: "od_pivot k cols tracts G = Inr out" and tr: "cells_in ''geo_id'' V tracts"
  shows "cells_in ''geo_id'' V out"
proof -
  from od_pivot_Inr [OF p] obtain data out0 out1 out2 s where
    data: "merge Inner ''geo_id'' ''trct'' tracts G = Inr data"
    and out0: "drop_duplicates ''geo_id'' (filter_regex_geo data) = Inr out0"
    and out1: "attach_tags (od_tags k) cols data (reset_index out0) = Inr out1"
    and out2: "od_totals k out1 = Inr out2"
    and s: "sort_values ''geo_id'' out2 = Inr s"
    and out: "out = reset_index s" by blast
  have in_filtered: "''geo_id'' \<in> set (filter regex_geo (columns data))"
    using drop_duplicates_Inr [OF out0] by (simp add: filter_regex_geo_def take_columns_def)
  then have "''geo_id'' \<in> set (columns data)" by simp
  from merge_column_origin [OF data this geo_id_last]
  have "cells_in ''geo_id'' V data"
    by (rule cells_in_merge_left [OF data _ geo_id_last(1) tr])
  then have "cells_in ''geo_id'' V (filter_regex_geo data)"
    unfolding filter_regex_geo_def using in_filtered by (rule cells_in_take_columns)
  with out0 have "cells_in ''geo_id'' V out0" by (rule cells_in_drop_duplicates)
  then have "cells_in ''geo_id'' V (reset_index out0)" by (rule cells_in_reset_index)
  with out1 have "cells_in ''geo_id'' V out1" by (rule cells_in_attach_tags)
  with out2 have "cells_in ''geo_id'' V out2" by (rule cells_in_od_totals)
  with s have "cells_in ''geo_id'' V s" by (rule cells_in_sort_values)
  then show ?thesis unfolding out by (rule cells_in_reset_index)
qed

lemma od_pivot_sorted:
  assumes "od_pivot k cols tracts G = Inr out"
  shows "sorted (map val_key (column out ''geo_id''))" and "map fst (rows out) = [0..<length (rows out)]"
proof -
  from od_pivot_Inr [OF assms] obtain s f where
    s: "sort_values ''geo_id'' f = Inr s" and out: "out = reset_index s" by blast
  show "sorted (map val_key (column out ''geo_id''))"
    unfolding out column_reset_index using s by (rule sorted_column_sort_values)
  show "map fst (rows out) = [0..<length (rows out)]"
    unfolding out by (rule index_reset_index)
qed

lemma sorted_strings:
  assumes "cells_in c (VStr ` T) f" and "sorted (map val_key (column f c))"
  shows "column f c = map VStr (astype_str (column f c))" and "sorted (astype_str (column f c))"
proof -
  show eq: "column f c = map VStr (astype_str (column f c))"
    using assms(1) by (rule column_of_strings)
  from assms(2) show "sorted (astype_str (column f c))"
    using sorted_val_key_VStr [of "astype_str (column f c)"] eq by simp
qed

subsection \<open>The combined totals\<close>

lemma sum_cells_pair:
  "sum_cells [a, b] = Some s \<longleftrightarrow> (\<exists>x y. num_of a = Some x \<and> num_of b = Some y \<and> s = x + y)"
  by (auto simp: sum_cells_def split: option.splits)

lemma those_map_zip:
  "those (map g xs) = Some ys \<Longrightarrow> (x, y) \<in> set (zip xs ys) \<Longrightarrow> g x = Some y"
proof (induction xs arbitrary: ys)
  case Nil
  then show ?case by simp
next
  case (Cons a xs)
  then show ?case by (cases ys) (auto split: option.splits)
qed

lemma add_sum_column_pair_rows:
  assumes "add_sum_column name [a, b] f = Inr g" and "r' \<in> snd ` set (rows g)"
  shows "\<exists>r x y. r \<in> snd ` set (rows f) \<and> num_of (cellv r a) = Some x
           \<and> num_of (cellv r b) = Some y \<and> r' = row_set name (VInt (x + y)) r"
proof -
  from add_sum_column_Inr [OF assms(1)] obtain sums where
    sums: "those (map (\<lambda>ir. sum_cells (map (cellv (snd ir)) [a, b])) (rows f)) = Some sums"
    and g: "g = assign_col name (map VInt sums) f" by blast
  have "rows g = map (\<lambda>p. (fst (fst p), row_set name (VInt (snd p)) (snd (fst p)))) (zip (rows f) sums)"
    by (simp add: g assign_col_def zip_map2 comp_def case_prod_beta)
  with assms(2) obtain ir s where p: "(ir, s) \<in> set (zip (rows f) sums)"
    and r': "r' = row_set name (VInt s) (snd ir)"
    by force
  from those_map_zip [OF sums p] have "sum_cells [cellv (snd ir) a, cellv (snd ir) b] = Some s"
    by simp
  then obtain x y where "num_of (cellv (snd ir) a) = Some x"
    "num_of (cellv (snd ir) b) = Some y" "s = x + y"
    unfolding sum_cells_pair by blast
  moreover from p have "snd ir \<in> snd ` set (rows f)"
    by (meson imageI set_zip_leftD)
  ultimately show ?thesis using r' by blast
qed

lemma sums_to_row_set_new:
  assumes "num_of (cellv r a) = Some x" and "num_of (cellv r b) = Some y"
    and "a \<noteq> c" and "b \<noteq> c"
  shows "sums_to (row_set c (VInt (x + y)) r) a b c"
  using assms by (simp add: sums_to_def cellv_row_set_other cell_row_set_same)

lemma sums_to_row_set_other:
  assumes "sums_to r a b c" and "a \<noteq> n" and "b \<noteq> n" and "c \<noteq> n"
  shows "sums_to (row_set n v r) a b c"
  using assms by (auto simp add: sums_to_def cellv_row_set_other cell_row_set_other split: option.splits)

lemma label_neq:
  "''resident_'' @ g \<noteq> ''total_'' @ h" "''nonresident_'' @ g \<noteq> ''total_'' @ h"
  "''resident_total'' \<noteq> ''total_'' @ h" "''nonresident_total'' \<noteq> ''total_'' @ h"
  "''total'' \<noteq> ''total_'' @ h" "''resident_total'' \<noteq> ''total''" "''nonresident_total'' \<noteq> ''total''"
  by simp_all

lemma add_group_totals_rows:
  assumes "add_group_totals gs f = Inr g" and "r' \<in> snd ` set (rows g)" and "distinct gs"
  shows "\<exists>r \<in> snd ` set (rows f).
           (\<forall>a b c. sums_to r a b c \<and> a \<notin> (\<lambda>h. ''total_'' @ h) ` set gs
                 \<and> b \<notin> (\<lambda>h. ''total_'' @ h) ` set gs \<and> c \<notin> (\<lambda>h. ''total_'' @ h) ` set gs
              \<longrightarrow> sums_to r' a b c)
           \<and> (\<forall>h \<in> set gs. sums_to r' (''resident_'' @ h) (''nonresident_'' @ h) (''total_'' @ h))"
  using assms
proof (induction gs arbitrary: f)
  case Nil
  then show ?case by auto
next
  case (Cons h gs)
  from Cons.prems(1) obtain f1 where
    f1: "add_sum_column (''total_'' @ h) [''resident_'' @ h, ''nonresident_'' @ h] f = Inr f1"
    and rest: "add_group_totals gs f1 = Inr g"
    by (auto simp: bind_err_Inr)
  from Cons.prems(3) have d: "distinct gs" and hn: "h \<notin> set gs" by simp_all
  from Cons.IH [OF rest Cons.prems(2) d] obtain r1 where r1: "r1 \<in> snd ` set (rows f1)"
    and keep: "\<And>a b c. sums_to r1 a b c \<Longrightarrow> a \<notin> (\<lambda>h. ''total_'' @ h) ` set gs
                 \<Longrightarrow> b \<notin> (\<lambda>h. ''total_'' @ h) ` set gs \<Longrightarrow> c \<notin> (\<lambda>h. ''total_'' @ h) ` set gs
              \<Longrightarrow> sums_to r' a b c"
    and fin: "\<And>k. k \<in> set gs \<Longrightarrow> sums_to r' (''resident_'' @ k) (''nonresident_'' @ k) (''total_'' @ k)"
    by blast
  from add_sum_column_pair_rows [OF f1 r1] obtain r x y where r: "r \<in> snd ` set (rows f)"
    and x: "num_of (cellv r (''resident_'' @ h)) = Some x"
    and y: "num_of (cellv r (''nonresident_'' @ h)) = Some y"
    and r1_eq: "r1 = row_set (''total_'' @ h) (VInt (x + y)) r" by blast
  have new: "sums_to r1 (''resident_'' @ h) (''nonresident_'' @ h) (''total_'' @ h)"
    unfolding r1_eq using x y label_neq(1,2) by (rule sums_to_row_set_new)
  have newh: "sums_to r' (''resident_'' @ h) (''nonresident_'' @ h) (''total_'' @ h)"
    using new
  proof (rule keep)
    show "''resident_'' @ h \<notin> (\<lambda>h. ''total_'' @ h) ` set gs" by auto
    show "''nonresident_'' @ h \<notin> (\<lambda>h. ''total_'' @ h) ` set gs" by auto
    show "''total_'' @ h \<notin> (\<lambda>h. ''total_'' @ h) ` set gs" using hn by auto
  qed
  have pres: "sums_to r' a b c"
    if "sums_to r a b c" "a \<notin> (\<lambda>h. ''total_'' @ h) ` set (h # gs)"
       "b \<notin> (\<lambda>h. ''total_'' @ h) ` set (h # gs)" "c \<notin> (\<lambda>h. ''total_'' @ h) ` set (h # gs)"
    for a b c
  proof -
    from that(2) have a: "a \<noteq> ''total_'' @ h" "a \<notin> (\<lambda>h. ''total_'' @ h) ` set gs" by auto
    from that(3) have b: "b \<noteq> ''total_'' @ h" "b \<notin> (\<lambda>h. ''total_'' @ h) ` set gs" by auto
    from that(4) have c: "c \<noteq> ''total_'' @ h" "c \<notin> (\<lambda>h. ''total_'' @ h) ` set gs" by auto
    have "sums_to r1 a b c"
      unfolding r1_eq using that(1) a(1) b(1) c(1) by (rule sums_to_row_set_other)
    then show ?thesis using a(2) b(2) c(2) by (rule keep)
  qed
  show ?case
  proof (rule bexI [OF _ r], intro conjI allI impI ballI)
    fix a b c
    assume "sums_to r a b c \<and> a \<notin> (\<lambda>h. ''total_'' @ h) ` set (h # gs)
                 \<and> b \<notin> (\<lambda>h. ''total_'' @ h) ` set (h # gs)
                 \<and> c \<notin> (\<lambda>h. ''total_'' @ h) ` set (h # gs)"
    then show "sums_to r' a b c" using pres by blast
  next
    fix k assume "k \<in> set (h # gs)"
    then have "k = h \<or> k \<in> set gs" by simp
    then show "sums_to r' (''resident_'' @ k) (''nonresident_'' @ k) (''total_'' @ k)"
      using newh fin by blast
  qed
qed

lemma distinct_od_groups: "distinct od_groups"
  by (simp add: od_groups_def)

lemma od_totals_work_rows:
  assumes "od_totals ''w_geocode'' f = Inr g" and "r' \<in> snd ` set (rows g)"
  shows "sums_to r' ''resident_total'' ''nonresident_total'' ''total''"
    and "\<And>h. h \<in> set od_groups \<Longrightarrow> sums_to r' (''resident_'' @ h) (''nonresident_'' @ h) (''total_'' @ h)"
proof -
  from assms(1) obtain f1 where
    f1: "add_sum_column ''total'' [''resident_total'', ''nonresident_total''] f = Inr f1"
    and rest: "add_group_totals od_groups f1 = Inr g"
    by (auto simp: od_totals_def bind_err_Inr)
  from add_group_totals_rows [OF rest assms(2) distinct_od_groups] obtain r1 where
    r1: "r1 \<in> snd ` set (rows f1)"
    and keep: "\<And>a b c. sums_to r1 a b c \<Longrightarrow> a \<notin> (\<lambda>h. ''total_'' @ h) ` set od_groups
                 \<Longrightarrow> b \<notin> (\<lambda>h. ''total_'' @ h) ` set od_groups
                 \<Longrightarrow> c \<notin> (\<lambda>h. ''total_'' @ h) ` set od_groups \<Longrightarrow> sums_to r' a b c"
    and fin: "\<And>k. k \<in> set od_groups \<Longrightarrow>
                 sums_to r' (''resident_'' @ k) (''nonresident_'' @ k) (''total_'' @ k)"
    by blast
  from add_sum_column_pair_rows [OF f1 r1] obtain r x y where
    x: "num_of (cellv r ''resident_total'') = Some x"
    and y: "num_of (cellv r ''nonresident_total'') = Some y"
    and r1_eq: "r1 = row_set ''total'' (VInt (x + y)) r" by blast
  have "sums_to r1 ''resident_total'' ''nonresident_total'' ''total''"
    unfolding r1_eq using x y label_neq(6,7) by (rule sums_to_row_set_new)
  then show "sums_to r' ''resident_total'' ''nonresident_total'' ''total''"
  proof (rule keep)
    show "''resident_total'' \<notin> (\<lambda>h. ''total_'' @ h) ` set od_groups" by auto
    show "''nonresident_total'' \<notin> (\<lambda>h. ''total_'' @ h) ` set od_groups" by auto
    show "''total'' \<notin> (\<lambda>h. ''total_'' @ h) ` set od_groups" by auto
  qed
  show "\<And>h. h \<in> set od_groups \<Longrightarrow> sums_to r' (''resident_'' @ h) (''nonresident_'' @ h) (''total_'' @ h)"
    by (rule fin)
qed

lemma od_pivot_work_rows:
  assumes "od_pivot ''w_geocode'' cols tracts G = Inr out" and "ir \<in> set (rows out)"
  shows "sums_to (snd ir) ''resident_total'' ''nonresident_total'' ''total''
     \<and> list_all (\<lambda>h. sums_to (snd ir) (''resident_'' @ h) (''nonresident_'' @ h) (''total_'' @ h)) od_groups"
proof -
  from od_pivot_Inr [OF assms(1)] obtain out1 out2 s where
    out2: "od_totals ''w_geocode'' out1 = Inr out2"
    and s: "sort_values ''geo_id'' out2 = Inr s"
    and out: "out = reset_index s" by blast
  from assms(2) have "snd ir \<in> snd ` set (rows out2)"
    using set_rows_sort_values [OF s] snd_set_rows_reset_index [of s] by (auto simp: out)
  from od_totals_work_rows [OF out2 this] show ?thesis
    by (simp add: list_all_iff)
qed

subsection \<open>The columns of the home summary\<close>

lemma prefix_append_underscore:
  assumes "prefix p (c @ CHR ''_'' # s)" and "CHR ''_'' \<notin> set p"
  shows "prefix p c"
proof -
  from assms(1) have "prefix p c \<or> (\<exists>us. p = c @ us \<and> prefix us (CHR ''_'' # s))"
    by (simp add: prefix_append)
  then show ?thesis
  proof
    assume "\<exists>us. p = c @ us \<and> prefix us (CHR ''_'' # s)"
    then obtain us where p: "p = c @ us" and us: "prefix us (CHR ''_'' # s)" by blast
    show ?thesis
    proof (cases us)
      case Nil
      with p show ?thesis by simp
    next
      case (Cons u us')
      with us have "u = CHR ''_''" by simp
      with Cons p assms(2) show ?thesis by simp
    qed
  qed
qed

lemma plain_label_suffix:
  assumes "plain_label c"
  shows "plain_label (suffix_overlap ov ''_x'' c)" and "plain_label (suffix_overlap ov ''_y'' c)"
  using assms prefix_append_underscore [of "''nonresident''" c] prefix_append_underscore [of "''total''" c]
  by (auto simp: plain_label_def suffix_overlap_def)

lemma plain_label_hd:
  assumes "c \<noteq> []" and "hd c \<noteq> CHR ''n''" and "hd c \<noteq> CHR ''t''"
  shows "plain_label c"
  using assms by (cases c) (auto simp: plain_label_def)

lemma plain_label_S: "startswith_S c \<Longrightarrow> plain_label c"
  by (cases c) (auto simp: startswith_S_def plain_label_def)

lemma plain_label_fixed:
  "plain_label ''trct''" "plain_label ''is_resident''" "plain_label ''geo_id''"
  by (simp_all add: plain_label_def)

lemma plain_label_not_combined: "plain_label c \<Longrightarrow> \<not> combined_label c"
  by (auto simp: plain_label_def combined_label_def elim: prefixE)

lemma plain_label_resident_rename:
  assumes "startswith_S c"
  shows "plain_label (rename_by (od_rename ''resident'') c)"
proof (cases "map_of (od_rename ''resident'') c")
  case None
  with assms show ?thesis by (simp add: rename_by_def plain_label_S)
next
  case (Some n)
  then have "(c, n) \<in> set (od_rename ''resident'')" by (rule map_of_SomeD)
  then have "n \<in> snd ` set (od_rename ''resident'')" by force
  then have "n \<noteq> [] \<and> hd n = CHR ''r''" by (auto simp: od_rename_def)
  then have "plain_label n" by (intro plain_label_hd) auto
  with Some show ?thesis by (simp add: rename_by_def)
qed

lemma merge_columns_plain:
  assumes "merge h lk rk L R = Inr m"
    and "list_all plain_label (columns L)" and "list_all plain_label (columns R)"
  shows "list_all plain_label (columns m)"
proof -
  have "set (merge_rcols lk rk R) \<subseteq> set (columns R)" by (auto simp: merge_rcols_def)
  with assms(2,3) show ?thesis
    unfolding merge_Inr(3) [OF assms(1)] list_all_iff
    by (auto intro: plain_label_suffix)
qed

lemma od_pivot_home_columns:
  assumes p: "od_pivot k cols tracts G = Inr out" and k: "k \<noteq> ''w_geocode''"
    and t: "list_all plain_label (columns tracts)" and G: "list_all plain_label (columns G)"
    and cols: "list_all startswith_S cols"
  shows "list_all plain_label (columns out)"
proof -
  from od_pivot_Inr [OF p] obtain data out0 out1 out2 s where
    data: "merge Inner ''geo_id'' ''trct'' tracts G = Inr data"
    and out0: "drop_duplicates ''geo_id'' (filter_regex_geo data) = Inr out0"
    and out1: "attach_tags (od_tags k) cols data (reset_index out0) = Inr out1"
    and out2: "od_totals k out1 = Inr out2"
    and s: "sort_values ''geo_id'' out2 = Inr s"
    and out: "out = reset_index s" by blast
  have "list_all plain_label (columns data)"
    using data t G by (rule merge_columns_plain)
  then have "list_all plain_label (columns (reset_index out0))"
    using drop_duplicates_Inr [OF out0]
    by (simp add: columns_reset_index filter_regex_geo_def take_columns_def list_all_iff)
  moreover have "attach_tags [(''resident'', True)] cols data (reset_index out0) = Inr out1"
    using out1 k by (simp add: od_tags_def)
  from attach_tags_step [OF this] obtain d where
    m: "merge Inner ''geo_id'' ''geo_id'' (reset_index out0)
          (rename_columns (rename_by (od_rename ''resident'')) (take_columns (''geo_id'' # cols) d)) = Inr out1"
    by auto
  moreover have "list_all plain_label
      (columns (rename_columns (rename_by (od_rename ''resident'')) (take_columns (''geo_id'' # cols) d)))"
  proof -
    have "rename_by (od_rename ''resident'') ''geo_id'' = ''geo_id''"
      by (simp add: rename_by_def od_rename_def)
    then show ?thesis
      using cols plain_label_resident_rename plain_label_fixed(3)
      by (simp add: rename_columns_def take_columns_def list_all_iff)
  qed
  ultimately have "list_all plain_label (columns out1)"
    using merge_columns_plain by blast
  moreover have "columns out = columns out1"
    using out2 k sort_values_Inr [OF s] by (simp add: out columns_reset_index od_totals_def)
  ultimately show ?thesis by simp
qed

subsection \<open>Runs of the summary pipeline\<close>

lemma od_demo_work_run:
  "SummaryLODES_download od_env 2017 ''work'' ''all'' = (Inr demo_od_work_out, od_work_trace)"
  by code_simp

lemma od_demo_home_run:
  "SummaryLODES_download od_env 2017 ''home'' ''all'' = (Inr demo_od_home_out, od_home_trace)"
  by code_simp

subsection \<open>Combined columns of the summary\<close>

lemma columns_astype_col: "astype_col c f = Inr g \<Longrightarrow> columns g = columns f"
  by (auto simp: astype_col_def assign_col_def split: if_splits)

lemma list_all_startswith_S_od_cols: "list_all startswith_S (od_cols data)"
  by (simp add: od_cols_def list_all_iff)

text \<open>
  Claim C1.  By workplace, every row of the summary has \<open>total\<close> equal to
  \<open>resident_total + nonresident_total\<close> and, for each of the nine groups, \<open>total_<group>\<close>
  equal to \<open>resident_<group> + nonresident_<group>\<close>.  By home, when no column of the tract
  reference itself begins with \<open>nonresident\<close> or \<open>total\<close>, the summary has no column
  \<open>nonresident_*\<close>, no column \<open>total\<close> and no column \<open>total_*\<close>.
\<close>

theorem od_totals_are_resident_plus_nonresident:
  "(SummaryLODES_download e year ''work'' job_type = (Inr out, tr) \<longrightarrow>
      list_all (\<lambda>ir. sums_to (snd ir) ''resident_total'' ''nonresident_total'' ''total''
          \<and> list_all (\<lambda>g. sums_to (snd ir) (''resident_'' @ g) (''nonresident_'' @ g) (''total_'' @ g))
                od_groups) (rows out))
   \<and> (SummaryLODES_download e year ''home'' job_type = (Inr out', tr')
        \<and> CensusTracts_get e (Some year) = Inr t \<and> list_all plain_label (columns t) \<longrightarrow>
      list_all (\<lambda>c. \<not> combined_label c) (columns out'))"
proof (intro conjI impI)
  assume "SummaryLODES_download e year ''work'' job_type = (Inr out, tr)"
  from SummaryLODES_download_Inr [OF this] allowed_kinds_lookup(1)
  obtain xwalk data tracts where "od_reshape ''w_geocode'' xwalk data tracts = Inr out" by auto
  from od_reshape_Inr [OF this] obtain cols G where
    "od_pivot ''w_geocode'' cols tracts G = Inr out" by blast
  then show "list_all (\<lambda>ir. sums_to (snd ir) ''resident_total'' ''nonresident_total'' ''total''
          \<and> list_all (\<lambda>g. sums_to (snd ir) (''resident_'' @ g) (''nonresident_'' @ g) (''total_'' @ g))
                od_groups) (rows out)"
    unfolding list_all_iff [of _ "rows out"] using od_pivot_work_rows by blast
next
  assume a: "SummaryLODES_download e year ''home'' job_type = (Inr out', tr')
        \<and> CensusTracts_get e (Some year) = Inr t \<and> list_all plain_label (columns t)"
  from SummaryLODES_download_Inr [of e year "''home''" job_type out' tr'] a allowed_kinds_lookup(2)
  obtain xwalk data tracts where tracts: "tracts_as_str t = Inr tracts"
    and r: "od_reshape ''h_geocode'' xwalk data tracts = Inr out'" by auto
  from od_reshape_Inr [OF r] obtain G where
    G: "od_tract_sums ''h_geocode'' xwalk (od_classify data tracts) = Inr G"
    and p: "od_pivot ''h_geocode'' (od_cols (od_classify data tracts)) tracts G = Inr out'" by blast
  have "columns tracts = columns t"
    using tracts by (simp add: tracts_as_str_def columns_astype_col)
  with a have t: "list_all plain_label (columns tracts)" by simp
  have "list_all plain_label (columns G)"
    using list_all_startswith_S_od_cols [of "od_classify data tracts"] plain_label_fixed(1,2)
    by (simp add: od_tract_sums_Inr [OF G] list_all_iff plain_label_S)
  with p t have "list_all plain_label (columns out')"
    by (intro od_pivot_home_columns [OF p _ t _ list_all_startswith_S_od_cols]) simp_all
  then show "list_all (\<lambda>c. \<not> combined_label c) (columns out')"
    by (simp add: list_all_iff plain_label_not_combined)
qed

lemma od_demo_tracts_get: "CensusTracts_get od_env y = Inr demo_od_tracts"
  by (simp add: od_env_def)

theorem od_totals_are_resident_plus_nonresident_witness:
  "SummaryLODES_download od_env 2017 ''work'' ''all'' = (Inr demo_od_work_out, od_work_trace)
   \<and> SummaryLODES_download od_env 2017 ''home'' ''all'' = (Inr demo_od_home_out, od_home_trace)
   \<and> CensusTracts_get od_env (Some 2017) = Inr demo_od_tracts
   \<and> list_all plain_label (columns demo_od_tracts)
   \<and> list_all (\<lambda>ir. sums_to (snd ir) ''resident_total'' ''nonresident_total'' ''total''
          \<and> list_all (\<lambda>g. sums_to (snd ir) (''resident_'' @ g) (''nonresident_'' @ g) (''total_'' @ g))
                od_groups) (rows demo_od_work_out)
   \<and> list_all (\<lambda>c. \<not> combined_label c) (columns demo_od_home_out)
   \<and> map (\<lambda>ir. (cell (snd ir) ''resident_total'', cell (snd ir) ''nonresident_total'',
                   cell (snd ir) ''total'')) (rows demo_od_work_out)
       = [(Some (VInt 5), Some (VInt 5), Some (VInt 10))]
   \<and> columns demo_od_home_out = od_home_columns"
proof -
  have plain: "list_all plain_label (columns demo_od_tracts)"
    by (simp add: demo_od_tracts_def plain_label_def)
  have cells: "map (\<lambda>ir. (cell (snd ir) ''resident_total'', cell (snd ir) ''nonresident_total'',
                   cell (snd ir) ''total'')) (rows demo_od_work_out)
       = [(Some (VInt 5), Some (VInt 5), Some (VInt 10))]"
    by code_simp
  have cols: "columns demo_od_home_out = od_home_columns"
    by (simp add: demo_od_home_out_def)
  from od_totals_are_resident_plus_nonresident
    [of od_env 2017 "''all''" demo_od_work_out od_work_trace demo_od_home_out od_home_trace demo_od_tracts]
    od_demo_work_run od_demo_home_run od_demo_tracts_get [of "Some 2017"] plain
  have "list_all (\<lambda>ir. sums_to (snd ir) ''resident_total'' ''nonresident_total'' ''total''
          \<and> list_all (\<lambda>g. sums_to (snd ir) (''resident_'' @ g) (''nonresident_'' @ g) (''total_'' @ g))
                od_groups) (rows demo_od_work_out)"
    and "list_all (\<lambda>c. \<not> combined_label c) (columns demo_od_home_out)"
    by blast+
  then show ?thesis
    by (intro conjI od_demo_work_run od_demo_home_run od_demo_tracts_get plain cells cols)
qed

subsection \<open>Intermediate tables of the summary run\<close>

lemma od_demo_sums:
  "astype_col ''tabblk2010'' demo_xwalk = Inr demo_xwalk_str"
  "od_tract_sums ''w_geocode'' demo_xwalk_str (od_classify demo_od_data demo_od_tracts_str)
     = Inr demo_od_sums"
  "od_cols (od_classify demo_od_data demo_od_tracts_str) = drop 2 od_sums_columns"
  by code_simp+

lemma od_demo_pivot_run:
  "od_pivot ''w_geocode'' (drop 2 od_sums_columns) demo_od_tracts_str demo_od_sums
     = Inr demo_od_work_out"
  by code_simp

subsection \<open>Which tracts the summary by workplace keeps\<close>

lemma wf_frameD: "wf_frame f \<Longrightarrow> r \<in> snd ` set (rows f) \<Longrightarrow> map fst r = columns f"
  by (auto simp: wf_frame_def list_all_iff)

lemma wf_frame_assign_col:
  assumes "wf_frame f" and "c \<in> set (columns f)"
  shows "wf_frame (assign_col c vs f)"
  unfolding wf_frame_def list_all_iff
proof
  fix ir assume "ir \<in> set (rows (assign_col c vs f))"
  from rows_assign_col [OF this] obtain ir0 v where ir0: "ir0 \<in> set (rows f)"
    and ir: "ir = (fst ir0, row_set c v (snd ir0))" by blast
  from ir0 assms(1) have "map fst (snd ir0) = columns f" by (auto dest: wf_frameD)
  with assms(2) show "map fst (snd ir) = columns (assign_col c vs f)"
    by (simp add: ir keys_row_set assign_col_def)
qed

lemma wf_frame_tracts_as_str:
  assumes "tracts_as_str t = Inr tracts" and "wf_frame t"
  shows "wf_frame tracts"
  using assms astype_col_Inr [of "''geo_id''" t tracts]
  by (auto simp: tracts_as_str_def intro: wf_frame_assign_col)

lemma cellv_merge_same_key:
  assumes "last k \<noteq> CHR ''x''" and "last k \<noteq> CHR ''y''"
  shows "cellv (merge_left_row (merge_overlap k k L R) l
                  @ merge_right_row (merge_overlap k k L R) (merge_rcols k k R) r) k = cellv l k"
  using assms
  by (simp add: cellv_def cell_append cell_merge_left_row [OF _ not_in_merge_overlap_same_key]
        cell_merge_right_row_same_key split: option.splits)

lemma merge_Inner_rows_image:
  assumes "merge Inner lk rk L R = Inr m"
  shows "snd ` set (rows m) =
     {merge_left_row (merge_overlap lk rk L R) l @ merge_right_row (merge_overlap lk rk L R) (merge_rcols lk rk R) r
        | l r. l \<in> snd ` set (rows L) \<and> r \<in> snd ` set (rows R) \<and> cellv r rk = cellv l lk}"
  using merge_Inner_rows [OF assms] by (simp only: set_map)

lemma merge_Inner_rowE:
  assumes "merge Inner lk rk L R = Inr m" and "y \<in> snd ` set (rows m)"
  obtains l r where "l \<in> snd ` set (rows L)" and "r \<in> snd ` set (rows R)"
    and "cellv r rk = cellv l lk"
    and "y = merge_left_row (merge_overlap lk rk L R) l
               @ merge_right_row (merge_overlap lk rk L R) (merge_rcols lk rk R) r"
  using assms(2) unfolding merge_Inner_rows_image [OF assms(1)] by blast

lemma merge_Inner_rowI:
  assumes "merge Inner lk rk L R = Inr m" and "l \<in> snd ` set (rows L)" and "r \<in> snd ` set (rows R)"
    and "cellv r rk = cellv l lk"
  shows "merge_left_row (merge_overlap lk rk L R) l
           @ merge_right_row (merge_overlap lk rk L R) (merge_rcols lk rk R) r \<in> snd ` set (rows m)"
  unfolding merge_Inner_rows_image [OF assms(1)] using assms(2-4) by blast

lemma column_merge_same_key:
  assumes m: "merge Inner k k L R = Inr m" and k: "last k \<noteq> CHR ''x''" "last k \<noteq> CHR ''y''"
  shows "set (column m k) = set (column L k) \<inter> set (column R k)"
proof (intro set_eqI iffI)
  fix v assume "v \<in> set (column m k)"
  then have "v \<in> (\<lambda>r. cellv r k) ` snd ` set (rows m)"
    by (simp add: set_column)
  then obtain y where y_in: "y \<in> snd ` set (rows m)" and v: "v = cellv y k"
    by blast
  from m y_in obtain l r where l: "l \<in> snd ` set (rows L)" and r: "r \<in> snd ` set (rows R)"
    and eq: "cellv r k = cellv l k"
    and y: "y = merge_left_row (merge_overlap k k L R) l
                  @ merge_right_row (merge_overlap k k L R) (merge_rcols k k R) r"
    by (rule merge_Inner_rowE)
  have vl: "v = cellv l k" unfolding v y using k by (rule cellv_merge_same_key)
  with eq have vr: "v = cellv r k" by simp
  from l vl have "v \<in> set (column L k)" unfolding set_column by blast
  moreover from r vr have "v \<in> set (column R k)" unfolding set_column by blast
  ultimately show "v \<in> set (column L k) \<inter> set (column R k)" by simp
next
  fix v assume "v \<in> set (column L k) \<inter> set (column R k)"
  then have "v \<in> (\<lambda>r. cellv r k) ` snd ` set (rows L)" "v \<in> (\<lambda>r. cellv r k) ` snd ` set (rows R)"
    by (simp_all add: set_column)
  then obtain l r where l: "l \<in> snd ` set (rows L)" and r: "r \<in> snd ` set (rows R)"
    and vl: "v = cellv l k" and vr: "v = cellv r k"
    by blast
  let ?y = "merge_left_row (merge_overlap k k L R) l
                  @ merge_right_row (merge_overlap k k L R) (merge_rcols k k R) r"
  from vl vr have "cellv r k = cellv l k" by simp
  with m l r have "?y \<in> snd ` set (rows m)" by (rule merge_Inner_rowI)
  moreover have "cellv ?y k = v" unfolding vl using k by (rule cellv_merge_same_key)
  ultimately show "v \<in> set (column m k)"
    unfolding set_column by blast
qed

lemma seen_dedup_rows:
  "(\<lambda>ir. cellv (snd ir) c) ` set (dedup_rows c seen irs)
     = (\<lambda>ir. cellv (snd ir) c) ` set irs - set seen"
  by (induction irs arbitrary: seen) auto

lemma column_drop_duplicates:
  assumes "drop_duplicates c f = Inr g"
  shows "set (column g c) = set (column f c)"
  using drop_duplicates_Inr [OF assms] seen_dedup_rows [of c "[]" "rows f"]
  by (simp add: column_def)

lemma column_add_sum_column:
  assumes "add_sum_column name cs f = Inr g" and "c \<noteq> name"
  shows "column g c = column f c"
proof -
  from add_sum_column_Inr [OF assms(1)] obtain sums where
    sums: "those (map (\<lambda>ir. sum_cells (map (cellv (snd ir)) cs)) (rows f)) = Some sums"
    and g: "g = assign_col name (map VInt sums) f" by blast
  from those_Some_length [OF sums] have "length (map VInt sums) = length (rows f)" by simp
  then show ?thesis unfolding g using assms(2) by (rule column_assign_col_other)
qed

lemma column_add_group_totals:
  assumes "add_group_totals gs f = Inr g"
  shows "column g ''geo_id'' = column f ''geo_id''"
  using assms
proof (induction gs arbitrary: f)
  case Nil
  then show ?case by simp
next
  case (Cons a gs)
  from Cons.prems obtain f1 where
    f1: "add_sum_column (''total_'' @ a) [''resident_'' @ a, ''nonresident_'' @ a] f = Inr f1"
    and rest: "add_group_totals gs f1 = Inr g"
    by (auto simp: bind_err_Inr)
  from column_add_sum_column [OF f1 total_is_not_geo_id(1)] Cons.IH [OF rest]
  show ?case by simp
qed

lemma column_od_totals:
  assumes "od_totals k f = Inr g"
  shows "column g ''geo_id'' = column f ''geo_id''"
proof (cases "k = ''w_geocode''")
  case True
  with assms obtain f1 where
    f1: "add_sum_column ''total'' [''resident_total'', ''nonresident_total''] f = Inr f1"
    and rest: "add_group_totals od_groups f1 = Inr g"
    by (auto simp: od_totals_def bind_err_Inr)
  from column_add_sum_column [OF f1 total_is_not_geo_id(2)] column_add_group_totals [OF rest]
  show ?thesis by simp
next
  case False
  with assms show ?thesis by (simp add: od_totals_def)
qed

lemma query_is_resident_Inr:
  "query_is_resident b f = Inr g \<Longrightarrow>
     ''is_resident'' \<in> set (columns f)
     \<and> rows g = filter (\<lambda>ir. cellv (snd ir) ''is_resident'' = VBool b) (rows f)"
  by (auto simp: query_is_resident_def split: if_splits)

lemma od_rename_geo_id:
  assumes "tag = ''resident'' \<or> tag = ''nonresident''"
  shows "rename_by (od_rename tag) ''geo_id'' = ''geo_id''"
    and "\<And>k. rename_by (od_rename tag) k = ''geo_id'' \<Longrightarrow> k = ''geo_id''"
proof -
  have "''geo_id'' \<notin> set (map fst (od_rename tag))" by (simp add: od_rename_def)
  then show "rename_by (od_rename tag) ''geo_id'' = ''geo_id''" by (rule rename_by_fixes)
  have "''geo_id'' \<notin> set (map snd (od_rename tag))"
    using assms by (auto simp: od_rename_def)
  then show "\<And>k. rename_by (od_rename tag) k = ''geo_id'' \<Longrightarrow> k = ''geo_id''"
    by (rule rename_by_target)
qed

lemma column_tag_table:
  assumes q: "query_is_resident b data = Inr d"
    and tag: "tag = ''resident'' \<or> tag = ''nonresident''"
  shows "set (column (rename_columns (rename_by (od_rename tag)) (take_columns (''geo_id'' # cols) d))
                ''geo_id'')
         = {cellv r ''geo_id'' | r. r \<in> snd ` set (rows data) \<and> cellv r ''is_resident'' = VBool b}"
proof -
  have "cellv (rename_row (rename_by (od_rename tag)) (row_take (''geo_id'' # cols) r)) ''geo_id''
          = cellv r ''geo_id''" for r
    using cell_rename_row [of "rename_by (od_rename tag)" "''geo_id''", OF od_rename_geo_id [OF tag]]
      cell_row_take [of "''geo_id''" "''geo_id'' # cols" r]
    by (simp add: cellv_def)
  then have "column (rename_columns (rename_by (od_rename tag)) (take_columns (''geo_id'' # cols) d))
                ''geo_id'' = column d ''geo_id''"
    by (simp add: column_def rename_columns_def take_columns_def comp_def)
  then show ?thesis
    using query_is_resident_Inr [OF q] by (auto simp: set_column image_iff) 
qed

lemma has_class_iff:
  "has_class G g b \<longleftrightarrow>
     (\<exists>r \<in> snd ` set (rows G). cellv r ''trct'' = g \<and> cellv r ''is_resident'' = VBool b)"
  by (auto simp: has_class_def list_ex_iff)

lemma is_resident_last: "last ''is_resident'' \<noteq> CHR ''x''" "last ''is_resident'' \<noteq> CHR ''y''"
  by simp_all

lemma od_data_cells:
  assumes data: "merge Inner ''geo_id'' ''trct'' tracts G = Inr data"
    and wf: "wf_frame tracts"
    and geo: "''geo_id'' \<in> set (columns data)"
    and res: "''is_resident'' \<in> set (columns data)" "''is_resident'' \<in> set (columns G)"
    and l: "l \<in> snd ` set (rows tracts)"
  shows "cellv (merge_left_row (merge_overlap ''geo_id'' ''trct'' tracts G) l
            @ merge_right_row (merge_overlap ''geo_id'' ''trct'' tracts G)
                (merge_rcols ''geo_id'' ''trct'' G) r) ''geo_id'' = cellv l ''geo_id''"
    and "cellv (merge_left_row (merge_overlap ''geo_id'' ''trct'' tracts G) l
            @ merge_right_row (merge_overlap ''geo_id'' ''trct'' tracts G)
                (merge_rcols ''geo_id'' ''trct'' G) r) ''is_resident'' = cellv r ''is_resident''"
proof -
  let ?ov = "merge_overlap ''geo_id'' ''trct'' tracts G"
  have keys: "map fst l = columns tracts" using wf l by (rule wf_frameD)
  have g_ov: "''geo_id'' \<notin> set ?ov" using data geo geo_id_last by (rule merge_column_origin)
  have r_ov: "''is_resident'' \<notin> set ?ov" using data res(1) is_resident_last by (rule merge_column_origin)
  have rcols: "merge_rcols ''geo_id'' ''trct'' G = columns G" by (simp add: merge_rcols_def)
  have "''geo_id'' \<in> set (columns tracts)" using merge_Inr(1) [OF data] .
  then have "cell l ''geo_id'' \<noteq> None" by (simp add: cell_None_iff keys)
  then show "cellv (merge_left_row ?ov l @ merge_right_row ?ov (merge_rcols ''geo_id'' ''trct'' G) r)
      ''geo_id'' = cellv l ''geo_id''"
    by (auto simp: cellv_def cell_append cell_merge_left_row [OF geo_id_last(1) g_ov])
  have "''is_resident'' \<notin> set (columns tracts)"
    using r_ov res(2) by (simp add: merge_overlap_def rcols)
  then have "cell l ''is_resident'' = None" by (simp add: cell_None_iff keys)
  then show "cellv (merge_left_row ?ov l @ merge_right_row ?ov (merge_rcols ''geo_id'' ''trct'' G) r)
      ''is_resident'' = cellv r ''is_resident''"
    using r_ov res(2)
    by (simp add: cellv_def cell_append cell_merge_left_row [OF is_resident_last(1) r_ov]
          cell_merge_right_row [OF is_resident_last(2)] rcols)
qed

lemma od_data_class:
  assumes data: "merge Inner ''geo_id'' ''trct'' tracts G = Inr data"
    and wf: "wf_frame tracts"
    and geo: "''geo_id'' \<in> set (columns data)"
    and res: "''is_resident'' \<in> set (columns data)" "''is_resident'' \<in> set (columns G)"
  shows "{cellv y ''geo_id'' | y. y \<in> snd ` set (rows data) \<and> cellv y ''is_resident'' = VBool b}
       = {g \<in> set (column tracts ''geo_id''). has_class G g b}"
proof (intro set_eqI iffI)
  fix g assume "g \<in> {cellv y ''geo_id'' | y. y \<in> snd ` set (rows data) \<and> cellv y ''is_resident'' = VBool b}"
  then obtain y where y_in: "y \<in> snd ` set (rows data)" and g: "g = cellv y ''geo_id''"
    and b: "cellv y ''is_resident'' = VBool b" by blast
  from data y_in obtain l r where l: "l \<in> snd ` set (rows tracts)" and r: "r \<in> snd ` set (rows G)"
    and eq: "cellv r ''trct'' = cellv l ''geo_id''"
    and y: "y = merge_left_row (merge_overlap ''geo_id'' ''trct'' tracts G) l
               @ merge_right_row (merge_overlap ''geo_id'' ''trct'' tracts G)
                   (merge_rcols ''geo_id'' ''trct'' G) r"
    by (rule merge_Inner_rowE)
  from od_data_cells [OF data wf geo res l, of r] g b
  have gl: "g = cellv l ''geo_id''" and br: "cellv r ''is_resident'' = VBool b"
    by (simp_all add: y)
  from l gl have "g \<in> set (column tracts ''geo_id'')" unfolding set_column by blast
  moreover from r eq gl br have "has_class G g b" unfolding has_class_iff by auto
  ultimately show "g \<in> {g \<in> set (column tracts ''geo_id''). has_class G g b}" by simp
next
  fix g assume "g \<in> {g \<in> set (column tracts ''geo_id''). has_class G g b}"
  then have "g \<in> (\<lambda>r. cellv r ''geo_id'') ` snd ` set (rows tracts)" and "has_class G g b"
    by (simp_all add: set_column)
  then obtain l r where l: "l \<in> snd ` set (rows tracts)" and gl: "g = cellv l ''geo_id''"
    and r: "r \<in> snd ` set (rows G)" and rt: "cellv r ''trct'' = g"
    and br: "cellv r ''is_resident'' = VBool b"
    unfolding has_class_iff by blast
  let ?y = "merge_left_row (merge_overlap ''geo_id'' ''trct'' tracts G) l
               @ merge_right_row (merge_overlap ''geo_id'' ''trct'' tracts G)
                   (merge_rcols ''geo_id'' ''trct'' G) r"
  from rt gl have "cellv r ''trct'' = cellv l ''geo_id''" by simp
  with data l r have "?y \<in> snd ` set (rows data)" by (rule merge_Inner_rowI)
  moreover from od_data_cells [OF data wf geo res l, of r] gl br
  have "cellv ?y ''geo_id'' = g" "cellv ?y ''is_resident'' = VBool b" by simp_all
  ultimately show "g \<in> {cellv y ''geo_id'' | y. y \<in> snd ` set (rows data) \<and> cellv y ''is_resident'' = VBool b}"
    by blast
qed

lemma od_pivot_work_geo_ids:
  assumes p: "od_pivot ''w_geocode'' cols tracts G = Inr out"
    and wf: "wf_frame tracts" and res: "''is_resident'' \<in> set (columns G)"
  shows "set (column out ''geo_id'')
           = {g \<in> set (column tracts ''geo_id''). has_class G g True \<and> has_class G g False}"
proof -
  from od_pivot_Inr [OF p] obtain data out0 out1 out2 s where
    data: "merge Inner ''geo_id'' ''trct'' tracts G = Inr data"
    and out0: "drop_duplicates ''geo_id'' (filter_regex_geo data) = Inr out0"
    and out1: "attach_tags (od_tags ''w_geocode'') cols data (reset_index out0) = Inr out1"
    and out2: "od_totals ''w_geocode'' out1 = Inr out2"
    and s: "sort_values ''geo_id'' out2 = Inr s"
    and out: "out = reset_index s" by blast
  have tags: "od_tags ''w_geocode'' = [(''resident'', True), (''nonresident'', False)]"
    by (simp add: od_tags_def)
  from out1 [unfolded tags, THEN attach_tags_step] obtain d1 m1 where
    d1: "query_is_resident True data = Inr d1"
    and m1: "merge Inner ''geo_id'' ''geo_id'' (reset_index out0)
                (rename_columns (rename_by (od_rename ''resident''))
                   (take_columns (''geo_id'' # cols) d1)) = Inr m1"
    and rest: "attach_tags [(''nonresident'', False)] cols data m1 = Inr out1"
    by auto
  from attach_tags_step [OF rest] obtain d2 where
    d2: "query_is_resident False data = Inr d2"
    and m2: "merge Inner ''geo_id'' ''geo_id'' m1
                (rename_columns (rename_by (od_rename ''nonresident''))
                   (take_columns (''geo_id'' # cols) d2)) = Inr out1"
    by auto
  let ?B = "\<lambda>b. {cellv y ''geo_id'' | y. y \<in> snd ` set (rows data) \<and> cellv y ''is_resident'' = VBool b}"
  have in_filtered: "''geo_id'' \<in> set (filter regex_geo (columns data))"
    using drop_duplicates_Inr [OF out0] by (simp add: filter_regex_geo_def take_columns_def)
  then have geo: "''geo_id'' \<in> set (columns data)" by simp
  have resd: "''is_resident'' \<in> set (columns data)" using query_is_resident_Inr [OF d1] by simp
  have c0: "set (column (reset_index out0) ''geo_id'') = set (column data ''geo_id'')"
    using column_drop_duplicates [OF out0] column_take_columns [OF in_filtered, of data]
    by (simp add: column_reset_index filter_regex_geo_def)
  have sub: "?B b \<subseteq> set (column data ''geo_id'')" for b
    unfolding set_column by blast
  have "set (column out1 ''geo_id'') = (set (column data ''geo_id'') \<inter> ?B True) \<inter> ?B False"
    using column_merge_same_key [OF m2 geo_id_last] column_merge_same_key [OF m1 geo_id_last]
      column_tag_table [OF d1, of "''resident''" cols] column_tag_table [OF d2, of "''nonresident''" cols]
      c0 by simp
  also have "\<dots> = ?B True \<inter> ?B False" using sub by blast
  also have "\<dots> = {g \<in> set (column tracts ''geo_id''). has_class G g True \<and> has_class G g False}"
    unfolding od_data_class [OF data wf geo resd res] by blast
  finally have "set (column out1 ''geo_id'')
      = {g \<in> set (column tracts ''geo_id''). has_class G g True \<and> has_class G g False}" .
  moreover have "set (column out ''geo_id'') = set (column out1 ''geo_id'')"
    using set_column_sort_values [OF s, of "''geo_id''"] column_od_totals [OF out2]
    by (simp add: out column_reset_index)
  ultimately show ?thesis by simp
qed

text \<open>
  Claim C9.  By workplace, the resident and the non-resident columns are attached by inner
  joins on \<open>geo_id\<close>.  The \<open>geo_id\<close> values of the output are exactly the tract ids of the
  reference for which the sums per tract and resident class hold both a resident and a
  non-resident record; a tract with records of one class only is not in the output.
  The first part is lines 95 to 156 on any tract table and any table of sums, the second
  the whole \<open>download\<close>.
\<close>

theorem od_work_keeps_tracts_with_both_classes:
  "(od_pivot ''w_geocode'' cols tracts G = Inr out \<and> wf_frame tracts
      \<and> ''is_resident'' \<in> set (columns G) \<longrightarrow>
      set (column out ''geo_id'')
        = {g \<in> set (column tracts ''geo_id''). has_class G g True \<and> has_class G g False})
   \<and> (SummaryLODES_download e year ''work'' job_type = (Inr out', tr)
      \<and> CensusTracts_get e (Some year) = Inr t \<and> wf_frame t \<longrightarrow>
      (\<exists>xwalk parts data tracts' G'.
          od_geocodes parts = Inr data \<and> tracts_as_str t = Inr tracts'
          \<and> od_tract_sums ''w_geocode'' xwalk (od_classify data tracts') = Inr G'
          \<and> set (column out' ''geo_id'')
              = {g \<in> set (column tracts' ''geo_id''). has_class G' g True \<and> has_class G' g False}))"
proof (intro conjI impI)
  assume "od_pivot ''w_geocode'' cols tracts G = Inr out \<and> wf_frame tracts
      \<and> ''is_resident'' \<in> set (columns G)"
  then show "set (column out ''geo_id'')
        = {g \<in> set (column tracts ''geo_id''). has_class G g True \<and> has_class G g False}"
    using od_pivot_work_geo_ids by blast
next
  assume a: "SummaryLODES_download e year ''work'' job_type = (Inr out', tr)
      \<and> CensusTracts_get e (Some year) = Inr t \<and> wf_frame t"
  from SummaryLODES_download_Inr [of e year "''work''" job_type out' tr] a allowed_kinds_lookup(1)
  obtain xwalk parts data tracts' where parts: "od_geocodes parts = Inr data"
    and tracts: "tracts_as_str t = Inr tracts'"
    and r: "od_reshape ''w_geocode'' xwalk data tracts' = Inr out'" by auto
  from od_reshape_Inr [OF r] obtain G' where
    G: "od_tract_sums ''w_geocode'' xwalk (od_classify data tracts') = Inr G'"
    and p: "od_pivot ''w_geocode'' (od_cols (od_classify data tracts')) tracts' G' = Inr out'"
    by blast
  have "wf_frame tracts'" using tracts a by (blast intro: wf_frame_tracts_as_str)
  moreover have "''is_resident'' \<in> set (columns G')" by (simp add: od_tract_sums_Inr [OF G])
  ultimately have "set (column out' ''geo_id'')
      = {g \<in> set (column tracts' ''geo_id''). has_class G' g True \<and> has_class G' g False}"
    using p by (intro od_pivot_work_geo_ids)
  with parts tracts G show "\<exists>xwalk parts data tracts' G'.
          od_geocodes parts = Inr data \<and> tracts_as_str t = Inr tracts'
          \<and> od_tract_sums ''w_geocode'' xwalk (od_classify data tracts') = Inr G'
          \<and> set (column out' ''geo_id'')
              = {g \<in> set (column tracts' ''geo_id''). has_class G' g True \<and> has_class G' g False}"
    by blast
qed

theorem od_work_keeps_tracts_with_both_classes_witness:
  "od_pivot ''w_geocode'' (drop 2 od_sums_columns) demo_od_tracts_str demo_od_sums
     = Inr demo_od_work_out
   \<and> wf_frame demo_od_tracts_str
   \<and> ''is_resident'' \<in> set (columns demo_od_sums)
   \<and> set (column demo_od_work_out ''geo_id'')
        = {g \<in> set (column demo_od_tracts_str ''geo_id'').
             has_class demo_od_sums g True \<and> has_class demo_od_sums g False}
   \<and> column demo_od_tracts_str ''geo_id'' = [VStr ''42101000200'', VStr ''42101000100'']
   \<and> column demo_od_work_out ''geo_id'' = [VStr ''42101000100'']
   \<and> has_class demo_od_sums (VStr ''42101000200'') True
   \<and> \<not> has_class demo_od_sums (VStr ''42101000200'') False
   \<and> has_class demo_od_sums (VStr ''42101000100'') True
   \<and> has_class demo_od_sums (VStr ''42101000100'') False"
proof -
  have wf: "wf_frame demo_od_tracts_str" by code_simp
  have res: "''is_resident'' \<in> set (columns demo_od_sums)" by code_simp
  have c: "column demo_od_tracts_str ''geo_id'' = [VStr ''42101000200'', VStr ''42101000100'']"
    "column demo_od_work_out ''geo_id'' = [VStr ''42101000100'']"
    by code_simp+
  have h: "has_class demo_od_sums (VStr ''42101000200'') True"
    "\<not> has_class demo_od_sums (VStr ''42101000200'') False"
    "has_class demo_od_sums (VStr ''42101000100'') True"
    "has_class demo_od_sums (VStr ''42101000100'') False"
    by code_simp+
  from od_work_keeps_tracts_with_both_classes
    [of "drop 2 od_sums_columns" demo_od_tracts_str demo_od_sums demo_od_work_out]
    od_demo_pivot_run wf res
  have "set (column demo_od_work_out ''geo_id'')
        = {g \<in> set (column demo_od_tracts_str ''geo_id'').
             has_class demo_od_sums g True \<and> has_class demo_od_sums g False}"
    by blast
  then show ?thesis
    by (intro conjI od_demo_pivot_run wf res c h)
qed

subsection \<open>Order of the groups\<close>

lemma those_list_all2: "those xs = Some ys \<Longrightarrow> list_all2 (\<lambda>x y. x = Some y) xs ys"
  by (induction xs arbitrary: ys) (auto split: option.splits)

lemma sorted_heads:
  assumes "sorted (map (map val_key) keys)" and "\<And>key. key \<in> set keys \<Longrightarrow> key \<noteq> []"
  shows "sorted (map (\<lambda>key. val_key (hd key)) keys)"
proof -
  have le: "val_key (hd a) \<le> val_key (hd b)"
    if "a \<in> set keys" "b \<in> set keys" "map val_key a \<le> map val_key b" for a b
  proof -
    from that(1,2) assms(2) obtain x xs y ys where "a = x # xs" "b = y # ys"
      by (metis list.exhaust)
    with that(3) show ?thesis by (auto simp: Cons_le_Cons)
  qed
  from assms(1) have "sorted_wrt (\<lambda>a b. map val_key a \<le> map val_key b) keys"
    by (simp add: sorted_map)
  then have "sorted_wrt (\<lambda>a b. val_key (hd a) \<le> val_key (hd b)) keys"
    by (rule sorted_wrt_mono_rel [rotated]) (use le in blast)
  then show ?thesis by (simp add: sorted_map)
qed

lemma groupby_sum_sorted:
  assumes "groupby_sum (k # ks) cs f = Inr N"
  shows "sorted (map val_key (column N k))" and "map fst (rows N) = [0..<length (rows N)]"
proof -
  let ?K = "k # ks"
  let ?rs = "filter (\<lambda>r. VNaN \<notin> set (row_key ?K r)) (map snd (rows f))"
  from assms obtain out where
    out: "those (map (group_row ?K cs ?rs) (group_keys ?K ?rs)) = Some out"
    and N: "N = \<lparr>columns = ?K @ cs, rows = enumerate 0 out\<rparr>"
    by (auto simp: groupby_sum_def Let_def split: option.splits)
  show "map fst (rows N) = [0..<length (rows N)]" by (simp add: N)
  have keys: "\<exists>r. key = row_key ?K r" if "key \<in> set (group_keys ?K ?rs)" for key
    using that by (auto simp: group_keys_def)
  from those_list_all2 [OF out]
  have "list_all2 (\<lambda>key x. group_row ?K cs ?rs key = Some x) (group_keys ?K ?rs) out"
    by (simp add: list_all2_map1)
  then have "list_all2 (\<lambda>key x. cellv x k = hd key) (group_keys ?K ?rs) out"
  proof (rule list.rel_mono_strong)
    fix key x
    assume key: "key \<in> set (group_keys ?K ?rs)" and g: "group_row ?K cs ?rs key = Some x"
    from keys [OF key] obtain r where r: "key = row_key ?K r" by blast
    from group_row_Some(2) [OF g [unfolded r], of k] have "cell x k = Some (cellv r k)" by simp
    then show "cellv x k = hd key" by (simp add: cellv_def r row_key_def)
  qed
  then have "map (\<lambda>x. cellv x k) out = map hd (group_keys ?K ?rs)"
    by (induction rule: list_all2_induct) auto
  then have col: "column N k = map hd (group_keys ?K ?rs)"
    by (simp add: column_snd N)
  have "sorted (map (map val_key) (group_keys ?K ?rs))"
    by (simp add: group_keys_def)
  moreover have "key \<noteq> []" if "key \<in> set (group_keys ?K ?rs)" for key
    using keys [OF that] by (auto simp: row_key_def)
  ultimately have "sorted (map (\<lambda>key. val_key (hd key)) (group_keys ?K ?rs))"
    by (rule sorted_heads)
  then show "sorted (map val_key (column N k))"
    by (simp add: col comp_def)
qed

lemma cell_rename_row_head:
  assumes "map fst x = a # rest" and "ren a = c"
  shows "cell (rename_row ren x) c = cell x a"
  using assms by (cases x) (auto simp: rename_row_def cell_def)

lemma index_rename_columns: "map fst (rows (rename_columns ren f)) = map fst (rows f)"
  by (simp add: rename_columns_def comp_def)

lemma length_rows_rename_columns: "length (rows (rename_columns ren f)) = length (rows f)"
  by (simp add: rename_columns_def)

lemma level_rename_geo_id: "rename_by (level_rename level) (''geo_id_'' @ level) = ''geo_id''"
  by (simp add: rename_by_def level_rename_def)

lemma aggregated_sorted:
  assumes "aggregate_count_data merged (''geo_id_'' @ level) ids = Inr agg"
  shows "sorted (map val_key (column (rename_columns (rename_by (level_rename level)) agg) ''geo_id''))"
    and "map fst (rows (rename_columns (rename_by (level_rename level)) agg))
           = [0..<length (rows (rename_columns (rename_by (level_rename level)) agg))]"
proof -
  let ?cs = "filter (\<lambda>c. c \<notin> set ((''geo_id_'' @ level) # ids)) (numeric_columns merged)"
  from assms have g: "groupby_sum ((''geo_id_'' @ level) # ids) ?cs merged = Inr agg"
    by (simp add: aggregate_count_data_def)
  have "cellv (rename_row (rename_by (level_rename level)) (snd ir)) ''geo_id''
          = cellv (snd ir) (''geo_id_'' @ level)" if "ir \<in> set (rows agg)" for ir
  proof -
    from groupby_sum_Inr(2) [OF g that]
    have "map fst (snd ir) = (''geo_id_'' @ level) # (ids @ ?cs)" by simp
    from cell_rename_row_head [of "snd ir" "''geo_id_'' @ level" _ "rename_by (level_rename level)"
        "''geo_id''", OF this level_rename_geo_id]
    show ?thesis
      by (simp only: cellv_def)
  qed
  then have "column (rename_columns (rename_by (level_rename level)) agg) ''geo_id''
      = column agg (''geo_id_'' @ level)"
    by (simp add: column_def rename_columns_def comp_def)
  with groupby_sum_sorted(1) [OF g]
  show "sorted (map val_key (column (rename_columns (rename_by (level_rename level)) agg) ''geo_id''))"
    by simp
  show "map fst (rows (rename_columns (rename_by (level_rename level)) agg))
           = [0..<length (rows (rename_columns (rename_by (level_rename level)) agg))]"
    using groupby_sum_sorted(2) [OF g]
    by (simp only: index_rename_columns length_rows_rename_columns)
qed

lemma aggregate_tracts_sorted:
  assumes "aggregate_tracts cw data level = Inr out"
  shows "sorted (map val_key (column out ''geo_id''))" and "map fst (rows out) = [0..<length (rows out)]"
proof -
  from assms obtain merged agg where
    agg: "aggregate_count_data merged (''geo_id_'' @ level) [''geo_name_'' @ level] = Inr agg"
    and out: "out = rename_columns (rename_by (level_rename level)) agg"
    unfolding aggregate_tracts_def bind_err_Inr by auto
  show "sorted (map val_key (column out ''geo_id''))" unfolding out using agg by (rule aggregated_sorted)
  show "map fst (rows out) = [0..<length (rows out)]" unfolding out using agg by (rule aggregated_sorted)
qed

subsection \<open>The tables returned by \<open>get\<close>\<close>

lemma bind_err_InrE:
  assumes "bind_err x f = Inr y"
  obtains v where "x = Inr v" and "f v = Inr y"
  using assms unfolding bind_err_Inr by blast

lemma fst_Inr_pair: "fst p = Inr x \<Longrightarrow> \<exists>tr. p = (Inr x, tr)"
  by (cases p) simp

lemma LongformLODES_get_Inr:
  assumes "LongformLODES_get cw e key fresh year level = Inr out"
  shows "\<exists>data tr. LongformLODES_download e key year ''all'' = (Inr data, tr)
           \<and> (if level = ''tract'' then out = data
               else \<exists>xwalk d merged agg.
                 (if level = ''nta'' then tracts_to_ntas cw (Some year)
                  else tracts_to_pumas cw (Some year)) = Inr xwalk
                 \<and> drop_column ''geometry'' data = Inr d
                 \<and> merge Left ''geo_id_tract'' ''geo_id'' xwalk d = Inr merged
                 \<and> aggregate_count_data merged (''geo_id_'' @ level) [''geo_name_'' @ level] = Inr agg
                 \<and> out = rename_columns (rename_by (level_rename level)) agg)"
proof -
  from assms have lv: "level \<in> set allowed_levels"
    by (auto simp: LongformLODES_get_def split: if_splits)
  have eq: "LongformLODES_get cw e key fresh year level =
        bind_err (Dataset_get (fst (LongformLODES_download e key year ''all'')) fresh) (\<lambda>data.
          if level = ''tract'' then Inr data
          else
            bind_err (if level = ''nta'' then tracts_to_ntas cw (Some year)
                      else tracts_to_pumas cw (Some year)) (\<lambda>xwalk.
            bind_err (drop_column ''geometry'' data) (\<lambda>d.
            bind_err (merge Left ''geo_id_tract'' ''geo_id'' xwalk d) (\<lambda>merged.
            bind_err (aggregate_count_data merged (''geo_id_'' @ level) [''geo_name_'' @ level])
              (\<lambda>agg. Inr (rename_columns (rename_by (level_rename level)) agg))))))"
    unfolding LongformLODES_get_def by (rule if_not_P) (simp add: lv)
  from trans [OF eq [symmetric] assms] obtain data where d: "fst (LongformLODES_download e key year ''all'') = Inr data"
    and rest: "(if level = ''tract'' then Inr data
          else
            bind_err (if level = ''nta'' then tracts_to_ntas cw (Some year)
                      else tracts_to_pumas cw (Some year)) (\<lambda>xwalk.
            bind_err (drop_column ''geometry'' data) (\<lambda>d.
            bind_err (merge Left ''geo_id_tract'' ''geo_id'' xwalk d) (\<lambda>merged.
            bind_err (aggregate_count_data merged (''geo_id_'' @ level) [''geo_name_'' @ level])
              (\<lambda>agg. Inr (rename_columns (rename_by (level_rename level)) agg)))))) = Inr out"
    unfolding Dataset_get_def by (rule bind_err_InrE)
  from fst_Inr_pair [OF d] obtain tr where "LongformLODES_download e key year ''all'' = (Inr data, tr)"
    by blast
  moreover have "if level = ''tract'' then out = data
               else \<exists>xwalk d merged agg.
                 (if level = ''nta'' then tracts_to_ntas cw (Some year)
                  else tracts_to_pumas cw (Some year)) = Inr xwalk
                 \<and> drop_column ''geometry'' data = Inr d
                 \<and> merge Left ''geo_id_tract'' ''geo_id'' xwalk d = Inr merged
                 \<and> aggregate_count_data merged (''geo_id_'' @ level) [''geo_name_'' @ level] = Inr agg
                 \<and> out = rename_columns (rename_by (level_rename level)) agg"
  proof (cases "level = ''tract''")
    case True
    with rest have "out = data" by simp
    with True show ?thesis by simp
  next
    case False
    from rest have "bind_err (if level = ''nta'' then tracts_to_ntas cw (Some year)
                      else tracts_to_pumas cw (Some year)) (\<lambda>xwalk.
            bind_err (drop_column ''geometry'' data) (\<lambda>d.
            bind_err (merge Left ''geo_id_tract'' ''geo_id'' xwalk d) (\<lambda>merged.
            bind_err (aggregate_count_data merged (''geo_id_'' @ level) [''geo_name_'' @ level])
              (\<lambda>agg. Inr (rename_columns (rename_by (level_rename level)) agg))))) = Inr out"
      unfolding if_not_P [OF False] .
    then obtain xwalk where x: "(if level = ''nta'' then tracts_to_ntas cw (Some year)
                  else tracts_to_pumas cw (Some year)) = Inr xwalk"
      and r1: "bind_err (drop_column ''geometry'' data) (\<lambda>d.
            bind_err (merge Left ''geo_id_tract'' ''geo_id'' xwalk d) (\<lambda>merged.
            bind_err (aggregate_count_data merged (''geo_id_'' @ level) [''geo_name_'' @ level])
              (\<lambda>agg. Inr (rename_columns (rename_by (level_rename level)) agg)))) = Inr out"
      by (rule bind_err_InrE)
    from r1 obtain d where d: "drop_column ''geometry'' data = Inr d"
      and r2: "bind_err (merge Left ''geo_id_tract'' ''geo_id'' xwalk d) (\<lambda>merged.
            bind_err (aggregate_count_data merged (''geo_id_'' @ level) [''geo_name_'' @ level])
              (\<lambda>agg. Inr (rename_columns (rename_by (level_rename level)) agg))) = Inr out"
      by (rule bind_err_InrE)
    from r2 obtain merged where m: "merge Left ''geo_id_tract'' ''geo_id'' xwalk d = Inr merged"
      and r3: "bind_err (aggregate_count_data merged (''geo_id_'' @ level) [''geo_name_'' @ level])
              (\<lambda>agg. Inr (rename_columns (rename_by (level_rename level)) agg)) = Inr out"
      by (rule bind_err_InrE)
    from r3 obtain agg where
      a: "aggregate_count_data merged (''geo_id_'' @ level) [''geo_name_'' @ level] = Inr agg"
      and o: "Inr (rename_columns (rename_by (level_rename level)) agg) = (Inr out :: error + frame)"
      by (rule bind_err_InrE)
    from o have "out = rename_columns (rename_by (level_rename level)) agg" by simp
    with x d m a have "\<exists>xwalk d merged agg.
                 (if level = ''nta'' then tracts_to_ntas cw (Some year)
                  else tracts_to_pumas cw (Some year)) = Inr xwalk
                 \<and> drop_column ''geometry'' data = Inr d
                 \<and> merge Left ''geo_id_tract'' ''geo_id'' xwalk d = Inr merged
                 \<and> aggregate_count_data merged (''geo_id_'' @ level) [''geo_name_'' @ level] = Inr agg
                 \<and> out = rename_columns (rename_by (level_rename level)) agg"
      by blast
    then show ?thesis unfolding if_not_P [OF False] .
  qed
  ultimately show ?thesis by blast
qed

lemma SummaryLODES_get_Inr:
  assumes "SummaryLODES_get cw e fresh kind year level job_type = Inr out"
  shows "\<exists>data tr. SummaryLODES_download e year kind job_type = (Inr data, tr)
           \<and> (if level \<noteq> ''tract'' then aggregate_tracts cw data level = Inr out else out = data)"
proof -
  from assms have lv: "level \<in> set allowed_levels"
    by (auto simp: SummaryLODES_get_def split: if_splits)
  have eq: "SummaryLODES_get cw e fresh kind year level job_type =
        bind_err (Dataset_get (fst (SummaryLODES_download e year kind job_type)) fresh) (\<lambda>data.
          if level \<noteq> ''tract'' then aggregate_tracts cw data level else Inr data)"
    unfolding SummaryLODES_get_def by (rule if_not_P) (simp add: lv)
  from trans [OF eq [symmetric] assms] obtain data where d: "fst (SummaryLODES_download e year kind job_type) = Inr data"
    and rest: "(if level \<noteq> ''tract'' then aggregate_tracts cw data level else Inr data) = Inr out"
    unfolding Dataset_get_def by (rule bind_err_InrE)
  from fst_Inr_pair [OF d] obtain tr where "SummaryLODES_download e year kind job_type = (Inr data, tr)"
    by blast
  moreover from rest have "if level \<noteq> ''tract'' then aggregate_tracts cw data level = Inr out else out = data"
    by (cases "level = ''tract''") simp_all
  ultimately show ?thesis by blast
qed

subsection \<open>Order and index of every output\<close>

lemma longform_download_sorted:
  assumes "longform_download catalog wy e key year job_type = (Inr out, tr)"
    and "''geo_id'' \<notin> set (map fst catalog)" "''geo_id'' \<notin> set (map snd catalog)"
  shows "column out ''geo_id'' = map VStr (tract_ids out)" and "sorted (tract_ids out)"
    and "sorted (map val_key (column out ''geo_id''))"
    and "map fst (rows out) = [0..<length (rows out)]"
proof -
  from longform_download_Inr [OF assms(1)] obtain data t tracts where
    tracts: "tracts_as_str t = Inr tracts"
    and r: "longform_reshape catalog data tracts = Inr out" by blast
  have "cells_in ''geo_id'' (VStr ` set (tract_ids t) \<inter> set (column data ''geo_id'')) out"
    using r assms(2,3) tracts_as_str_cells [OF tracts] by (rule longform_reshape_geo_cells)
  then have c: "cells_in ''geo_id'' (VStr ` set (tract_ids t)) out"
    by (rule cells_in_mono) simp
  show s: "sorted (map val_key (column out ''geo_id''))" using r by (rule longform_reshape_sorted)
  show "map fst (rows out) = [0..<length (rows out)]" using r by (rule longform_reshape_sorted)
  from sorted_strings [OF c s]
  show "column out ''geo_id'' = map VStr (tract_ids out)" and "sorted (tract_ids out)"
    by (simp_all add: tract_ids_def)
qed

lemma SummaryLODES_download_sorted:
  assumes "SummaryLODES_download e year kind job_type = (Inr out, tr)"
  shows "column out ''geo_id'' = map VStr (tract_ids out)" and "sorted (tract_ids out)"
    and "sorted (map val_key (column out ''geo_id''))"
    and "map fst (rows out) = [0..<length (rows out)]"
proof -
  from SummaryLODES_download_Inr [OF assms] obtain k xwalk data t tracts where
    tracts: "tracts_as_str t = Inr tracts"
    and r: "od_reshape k xwalk data tracts = Inr out" by blast
  from od_reshape_Inr [OF r] obtain cols G where p: "od_pivot k cols tracts G = Inr out" by blast
  have c: "cells_in ''geo_id'' (VStr ` set (tract_ids t)) out"
    using p tracts_as_str_cells [OF tracts] by (rule od_pivot_geo_cells)
  show s: "sorted (map val_key (column out ''geo_id''))" using p by (rule od_pivot_sorted)
  show "map fst (rows out) = [0..<length (rows out)]" using p by (rule od_pivot_sorted)
  from sorted_strings [OF c s]
  show "column out ''geo_id'' = map VStr (tract_ids out)" and "sorted (tract_ids out)"
    by (simp_all add: tract_ids_def)
qed

lemma LongformLODES_get_sorted:
  assumes "LongformLODES_get cw e key fresh year level = Inr out"
  shows "sorted (map val_key (column out ''geo_id''))" and "map fst (rows out) = [0..<length (rows out)]"
proof -
  from LongformLODES_get_Inr [OF assms] obtain data tr where
    d: "LongformLODES_download e key year ''all'' = (Inr data, tr)"
    and rest: "if level = ''tract'' then out = data
               else \<exists>merged agg.
                 aggregate_count_data merged (''geo_id_'' @ level) [''geo_name_'' @ level] = Inr agg
                 \<and> out = rename_columns (rename_by (level_rename level)) agg"
    by (cases "level = ''tract''") (simp_all, blast+)
  from d have dl: "longform_download RAW_FIELDS True e key year ''all'' = (Inr data, tr)"
    by (simp add: LongformLODES_download_def)
  have "sorted (map val_key (column out ''geo_id'')) \<and> map fst (rows out) = [0..<length (rows out)]"
  proof (cases "level = ''tract''")
    case True
    with rest longform_download_sorted(3,4) [OF dl catalog_has_no_geo_id(1,2)] show ?thesis by simp
  next
    case False
    with rest obtain merged agg where
      "aggregate_count_data merged (''geo_id_'' @ level) [''geo_name_'' @ level] = Inr agg"
      and "out = rename_columns (rename_by (level_rename level)) agg" by auto
    then show ?thesis using aggregated_sorted by blast
  qed
  then show "sorted (map val_key (column out ''geo_id''))"
    and "map fst (rows out) = [0..<length (rows out)]" by simp_all
qed

lemma SummaryLODES_get_sorted:
  assumes "SummaryLODES_get cw e fresh kind year level job_type = Inr out"
  shows "sorted (map val_key (column out ''geo_id''))" and "map fst (rows out) = [0..<length (rows out)]"
proof -
  from SummaryLODES_get_Inr [OF assms] obtain data tr where
    d: "SummaryLODES_download e year kind job_type = (Inr data, tr)"
    and rest: "if level \<noteq> ''tract'' then aggregate_tracts cw data level = Inr out else out = data"
    by blast
  have "sorted (map val_key (column out ''geo_id'')) \<and> map fst (rows out) = [0..<length (rows out)]"
  proof (cases "level = ''tract''")
    case True
    with rest SummaryLODES_download_sorted(3,4) [OF d] show ?thesis by simp
  next
    case False
    with rest have "aggregate_tracts cw data level = Inr out" by simp
    then show ?thesis using aggregate_tracts_sorted by blast
  qed
  then show "sorted (map val_key (column out ''geo_id''))"
    and "map fst (rows out) = [0..<length (rows out)]" by simp_all
qed


subsection \<open>Runs of \<open>get\<close> at a coarser level\<close>

lemma longform_nta_run:
  "LongformLODES_get demo_crosswalks longform_env ''wac'' False 2017 ''nta'' = Inr demo_nta_out"
  by code_simp

lemma od_nta_run:
  "SummaryLODES_get demo_crosswalks od_env False ''home'' 2017 ''nta'' ''all'' = Inr demo_od_nta_out"
  by code_simp

text \<open>
  Claim C7.  The table that \<open>download\<close> returns, in the longform pipeline (both revisions)
  and in the summary pipeline, has string \<open>geo_id\<close> values in ascending order and the row
  index \<open>0, 1, 2, \<dots>\<close>.  The table that \<open>get\<close> returns, at level \<open>tract\<close>, \<open>nta\<close> or \<open>puma\<close>,
  is in ascending order of \<open>geo_id\<close> with the same dense index; at the coarser levels it
  is the table of the aggregation collaborator, as modelled from the spec.
\<close>

theorem output_sorted_by_geo_id_with_dense_index:
  "(LongformLODES_download e key year job_type = (Inr out1, tr1) \<longrightarrow>
      column out1 ''geo_id'' = map VStr (tract_ids out1) \<and> sorted (tract_ids out1)
      \<and> map fst (rows out1) = [0..<length (rows out1)])
   \<and> (LongformLODES_download_econ e key year job_type = (Inr out2, tr2) \<longrightarrow>
      column out2 ''geo_id'' = map VStr (tract_ids out2) \<and> sorted (tract_ids out2)
      \<and> map fst (rows out2) = [0..<length (rows out2)])
   \<and> (SummaryLODES_download e year kind job_type = (Inr out3, tr3) \<longrightarrow>
      column out3 ''geo_id'' = map VStr (tract_ids out3) \<and> sorted (tract_ids out3)
      \<and> map fst (rows out3) = [0..<length (rows out3)])
   \<and> (LongformLODES_get cw e key fresh year level = Inr out4 \<longrightarrow>
      sorted (map val_key (column out4 ''geo_id''))
      \<and> map fst (rows out4) = [0..<length (rows out4)])
   \<and> (SummaryLODES_get cw e fresh kind year level job_type = Inr out5 \<longrightarrow>
      sorted (map val_key (column out5 ''geo_id''))
      \<and> map fst (rows out5) = [0..<length (rows out5)])"
proof (intro conjI impI)
  assume "LongformLODES_download e key year job_type = (Inr out1, tr1)"
  then have r: "longform_download RAW_FIELDS True e key year job_type = (Inr out1, tr1)"
    by (simp add: LongformLODES_download_def)
  from longform_download_sorted(1,2,4) [OF r catalog_has_no_geo_id(1,2)]
  show "column out1 ''geo_id'' = map VStr (tract_ids out1)" and "sorted (tract_ids out1)"
    and "map fst (rows out1) = [0..<length (rows out1)]" .
next
  assume "LongformLODES_download_econ e key year job_type = (Inr out2, tr2)"
  then have r: "longform_download RAW_FIELDS_econ False e key year job_type = (Inr out2, tr2)"
    by (simp add: LongformLODES_download_econ_def)
  from longform_download_sorted(1,2,4) [OF r catalog_has_no_geo_id(3,4)]
  show "column out2 ''geo_id'' = map VStr (tract_ids out2)" and "sorted (tract_ids out2)"
    and "map fst (rows out2) = [0..<length (rows out2)]" .
next
  assume r: "SummaryLODES_download e year kind job_type = (Inr out3, tr3)"
  from SummaryLODES_download_sorted(1,2,4) [OF r]
  show "column out3 ''geo_id'' = map VStr (tract_ids out3)" and "sorted (tract_ids out3)"
    and "map fst (rows out3) = [0..<length (rows out3)]" .
next
  assume r: "LongformLODES_get cw e key fresh year level = Inr out4"
  from LongformLODES_get_sorted [OF r]
  show "sorted (map val_key (column out4 ''geo_id''))"
    and "map fst (rows out4) = [0..<length (rows out4)]" .
next
  assume r: "SummaryLODES_get cw e fresh kind year level job_type = Inr out5"
  from SummaryLODES_get_sorted [OF r]
  show "sorted (map val_key (column out5 ''geo_id''))"
    and "map fst (rows out5) = [0..<length (rows out5)]" .
qed

theorem output_sorted_by_geo_id_with_dense_index_witness:
  "LongformLODES_download longform_env ''wac'' 2017 ''all''
     = (Inr longform_demo_out, [ReadCsv demo_wac_url, TractsGet (Some 2017)])
   \<and> LongformLODES_download_econ longform_env ''wac'' 2017 ''all''
     = (Inr longform_demo_out, [ReadCsv demo_wac_url, TractsGet None])
   \<and> SummaryLODES_download od_env 2017 ''home'' ''all'' = (Inr demo_od_home_out, od_home_trace)
   \<and> LongformLODES_get demo_crosswalks longform_env ''wac'' False 2017 ''nta'' = Inr demo_nta_out
   \<and> SummaryLODES_get demo_crosswalks od_env False ''home'' 2017 ''nta'' ''all'' = Inr demo_od_nta_out
   \<and> tract_ids longform_demo_out = [''42101000000'', ''42101000100'']
   \<and> sorted (tract_ids longform_demo_out)
   \<and> map fst (rows longform_demo_out) = [0..<length (rows longform_demo_out)]
   \<and> tract_ids demo_od_home_out = [''42101000100'', ''42101000200'']
   \<and> sorted (tract_ids demo_od_home_out)
   \<and> map fst (rows demo_od_home_out) = [0..<length (rows demo_od_home_out)]
   \<and> column demo_nta_out ''geo_id'' = [VStr ''N0'', VStr ''N1'']
   \<and> sorted (map val_key (column demo_nta_out ''geo_id''))
   \<and> map fst (rows demo_nta_out) = [0..<length (rows demo_nta_out)]
   \<and> sorted (map val_key (column demo_od_nta_out ''geo_id''))
   \<and> map fst (rows demo_od_nta_out) = [0..<length (rows demo_od_nta_out)]"
proof -
  have ids: "tract_ids longform_demo_out = [''42101000000'', ''42101000100'']"
    "tract_ids demo_od_home_out = [''42101000100'', ''42101000200'']"
    "column demo_nta_out ''geo_id'' = [VStr ''N0'', VStr ''N1'']"
    by code_simp+
  note t = output_sorted_by_geo_id_with_dense_index
    [where e = longform_env and key = "''wac''" and year = 2017 and job_type = "''all''"
       and ?out1.0 = longform_demo_out and ?tr1.0 = "[ReadCsv demo_wac_url, TractsGet (Some 2017)]"
       and cw = demo_crosswalks and fresh = False and level = "''nta''"
       and ?out4.0 = demo_nta_out]
  note u = output_sorted_by_geo_id_with_dense_index
    [where e = od_env and year = 2017 and job_type = "''all''" and kind = "''home''"
       and ?out3.0 = demo_od_home_out and ?tr3.0 = od_home_trace
       and cw = demo_crosswalks and fresh = False and level = "''nta''"
       and ?out5.0 = demo_od_nta_out]
  from t longform_demo_run
  have a: "sorted (tract_ids longform_demo_out)"
    "map fst (rows longform_demo_out) = [0..<length (rows longform_demo_out)]" by blast+
  from u od_demo_home_run
  have b: "sorted (tract_ids demo_od_home_out)"
    "map fst (rows demo_od_home_out) = [0..<length (rows demo_od_home_out)]" by blast+
  from t longform_nta_run
  have c: "sorted (map val_key (column demo_nta_out ''geo_id''))"
    "map fst (rows demo_nta_out) = [0..<length (rows demo_nta_out)]" by blast+
  from u od_nta_run
  have d: "sorted (map val_key (column demo_od_nta_out ''geo_id''))"
    "map fst (rows demo_od_nta_out) = [0..<length (rows demo_od_nta_out)]" by blast+
  show ?thesis
    by (intro conjI longform_demo_run longform_demo_run_econ od_demo_home_run longform_nta_run
          od_nta_run ids a b c d)
qed

subsection \<open>The geometry column in \<open>get\<close>\<close>

lemma drop_column_Inr:
  assumes "drop_column c f = Inr d"
  shows "c \<in> set (columns f)" and "columns d = filter (\<lambda>k. k \<noteq> c) (columns f)"
    and "c \<notin> set (columns d)" and "list_all (\<lambda>k. column d k = column f k) (columns d)"
proof -
  from assms show in_f: "c \<in> set (columns f)"
    by (auto simp: drop_column_def split: if_splits)
  with assms have d: "d = take_columns (filter (\<lambda>k. k \<noteq> c) (columns f)) f"
    by (simp add: drop_column_def)
  then show cols: "columns d = filter (\<lambda>k. k \<noteq> c) (columns f)"
    by (simp add: take_columns_def)
  then show "c \<notin> set (columns d)" by simp
  have "column d k = column f k" if "k \<in> set (columns d)" for k
    using that unfolding cols
    by (simp add: d column_def take_columns_def comp_def cellv_row_take)
  then show "list_all (\<lambda>k. column d k = column f k) (columns d)"
    by (simp add: list_all_iff)
qed

lemma suffix_is_not_geometry:
  "c @ ''_x'' \<noteq> ''geometry''" "c @ ''_y'' \<noteq> ''geometry''"
proof -
  have "rev (c @ ''_x'') \<noteq> rev ''geometry''" "rev (c @ ''_y'') \<noteq> rev ''geometry''"
    by simp_all
  then show "c @ ''_x'' \<noteq> ''geometry''" "c @ ''_y'' \<noteq> ''geometry''"
    by metis+
qed

lemma merge_without_geometry:
  assumes m: "merge h lk rk L R = Inr m"
    and "''geometry'' \<notin> set (columns L)" and "''geometry'' \<notin> set (columns R)"
  shows "''geometry'' \<notin> set (columns m)"
proof -
  have "set (merge_rcols lk rk R) \<subseteq> set (columns R)" by (auto simp: merge_rcols_def)
  with assms(2,3) show ?thesis
    unfolding merge_Inr(3) [OF m]
    by (auto simp: suffix_overlap_def suffix_is_not_geometry)
qed

lemma level_key_is_not_geometry:
  "''geo_id_'' @ level \<noteq> ''geometry''" "''geo_name_'' @ level \<noteq> ''geometry''"
  by simp_all

lemma aggregated_without_geometry:
  assumes a: "aggregate_count_data merged (''geo_id_'' @ level) [''geo_name_'' @ level] = Inr agg"
    and g: "''geometry'' \<notin> set (columns merged)"
  shows "''geometry'' \<notin> set (columns (rename_columns (rename_by (level_rename level)) agg))"
proof -
  let ?cs = "filter (\<lambda>c. c \<notin> set [''geo_id_'' @ level, ''geo_name_'' @ level]) (numeric_columns merged)"
  from a have "groupby_sum [''geo_id_'' @ level, ''geo_name_'' @ level] ?cs merged = Inr agg"
    by (simp add: aggregate_count_data_def)
  from groupby_sum_Inr(1) [OF this]
  have cols: "columns agg = [''geo_id_'' @ level, ''geo_name_'' @ level] @ ?cs" .
  have "set (numeric_columns merged) \<subseteq> set (columns merged)"
    by (auto simp: numeric_columns_def)
  with g have "''geometry'' \<notin> set ?cs" by auto
  with cols have no: "''geometry'' \<notin> set (columns agg)"
    using level_key_is_not_geometry [of level] by simp
  have tgt: "''geometry'' \<notin> set (map snd (level_rename level))"
    by (simp add: level_rename_def)
  show ?thesis
  proof
    assume "''geometry'' \<in> set (columns (rename_columns (rename_by (level_rename level)) agg))"
    then obtain k where k: "k \<in> set (columns agg)"
      and r: "rename_by (level_rename level) k = ''geometry''"
      by (auto simp: rename_columns_def)
    from rename_by_target [OF tgt r] k no show False by simp
  qed
qed

lemma LongformLODES_get_tract:
  "LongformLODES_get cw e key fresh year ''tract''
     = Dataset_get (fst (LongformLODES_download e key year ''all'')) fresh"
proof -
  have "bind_err x (\<lambda>data. Inr data) = x" for x :: "error + frame"
    by (cases x) (simp_all add: bind_err_def)
  then show ?thesis
    by (simp add: LongformLODES_get_def allowed_levels_def)
qed

lemma longform_tract_run:
  "LongformLODES_get demo_crosswalks longform_env ''wac'' False 2017 ''tract'' = Inr longform_demo_out"
  by code_simp

lemma longform_nta_stages:
  "tracts_to_ntas demo_crosswalks (Some 2017) = Inr demo_ntas"
  "columns demo_ntas = [''geo_id_tract'', ''geo_id_nta'', ''geo_name_nta'']"
  "columns longform_demo_out = [''geo_id'', ''geo_name'', ''geometry'', ''age_29_or_younger'', ''total_jobs'']"
  "columns demo_nta_out = [''geo_id'', ''geo_name'', ''age_29_or_younger'', ''total_jobs'']"
  by code_simp+

text \<open>
  Claim C10.  At level \<open>tract\<close> the longform \<open>get\<close> returns what the fetch layer hands over,
  as it is (so with its \<open>geometry\<close> column).  At level \<open>nta\<close> or \<open>puma\<close>, whenever \<open>get\<close>
  returns a table, the table of the fetch layer had a \<open>geometry\<close> column, the table that
  goes into the merge with the crosswalk is that table without \<open>geometry\<close> and with every
  other column as it was, and, the crosswalk having no column of that name, neither the
  merged table nor the table returned has a \<open>geometry\<close> column.
\<close>

theorem longform_get_drops_geometry_above_tract:
  "LongformLODES_get cw e key fresh year ''tract''
       = Dataset_get (fst (LongformLODES_download e key year ''all'')) fresh
   \<and> (level \<noteq> ''tract''
       \<and> LongformLODES_get cw e key fresh year level = Inr out
       \<and> (if level = ''nta'' then tracts_to_ntas cw (Some year)
           else tracts_to_pumas cw (Some year)) = Inr xwalk
       \<and> ''geometry'' \<notin> set (columns xwalk) \<longrightarrow>
       (\<exists>data d merged.
           Dataset_get (fst (LongformLODES_download e key year ''all'')) fresh = Inr data
         \<and> ''geometry'' \<in> set (columns data)
         \<and> drop_column ''geometry'' data = Inr d
         \<and> columns d = filter (\<lambda>c. c \<noteq> ''geometry'') (columns data)
         \<and> list_all (\<lambda>c. column d c = column data c) (columns d)
         \<and> merge Left ''geo_id_tract'' ''geo_id'' xwalk d = Inr merged
         \<and> ''geometry'' \<notin> set (columns merged))
       \<and> ''geometry'' \<notin> set (columns out))"
proof (intro conjI impI)
  show "LongformLODES_get cw e key fresh year ''tract''
       = Dataset_get (fst (LongformLODES_download e key year ''all'')) fresh"
    by (rule LongformLODES_get_tract)
next
  assume a: "level \<noteq> ''tract''
       \<and> LongformLODES_get cw e key fresh year level = Inr out
       \<and> (if level = ''nta'' then tracts_to_ntas cw (Some year)
           else tracts_to_pumas cw (Some year)) = Inr xwalk
       \<and> ''geometry'' \<notin> set (columns xwalk)"
  then have lv: "level \<noteq> ''tract''"
    and run: "LongformLODES_get cw e key fresh year level = Inr out"
    and x: "(if level = ''nta'' then tracts_to_ntas cw (Some year)
           else tracts_to_pumas cw (Some year)) = Inr xwalk"
    and nx: "''geometry'' \<notin> set (columns xwalk)" by blast+
  from LongformLODES_get_Inr [OF run] lv x obtain data tr d merged agg where
    dl: "LongformLODES_download e key year ''all'' = (Inr data, tr)"
    and d: "drop_column ''geometry'' data = Inr d"
    and m: "merge Left ''geo_id_tract'' ''geo_id'' xwalk d = Inr merged"
    and ag: "aggregate_count_data merged (''geo_id_'' @ level) [''geo_name_'' @ level] = Inr agg"
    and out: "out = rename_columns (rename_by (level_rename level)) agg"
    by auto
  from dl have fetched: "Dataset_get (fst (LongformLODES_download e key year ''all'')) fresh = Inr data"
    by (simp add: Dataset_get_def)
  from m nx drop_column_Inr(3) [OF d] have nm: "''geometry'' \<notin> set (columns merged)"
    by (rule merge_without_geometry)
  from fetched drop_column_Inr(1) [OF d] d drop_column_Inr(2) [OF d] drop_column_Inr(4) [OF d] m nm
  show "\<exists>data d merged.
           Dataset_get (fst (LongformLODES_download e key year ''all'')) fresh = Inr data
         \<and> ''geometry'' \<in> set (columns data)
         \<and> drop_column ''geometry'' data = Inr d
         \<and> columns d = filter (\<lambda>c. c \<noteq> ''geometry'') (columns data)
         \<and> list_all (\<lambda>c. column d c = column data c) (columns d)
         \<and> merge Left ''geo_id_tract'' ''geo_id'' xwalk d = Inr merged
         \<and> ''geometry'' \<notin> set (columns merged)"
    by blast
  from ag nm show "''geometry'' \<notin> set (columns out)"
    unfolding out by (rule aggregated_without_geometry)
qed

theorem longform_get_drops_geometry_above_tract_witness:
  "LongformLODES_get demo_crosswalks longform_env ''wac'' False 2017 ''tract'' = Inr longform_demo_out
   \<and> Dataset_get (fst (LongformLODES_download longform_env ''wac'' 2017 ''all'')) False
       = Inr longform_demo_out
   \<and> ''geometry'' \<in> set (columns longform_demo_out)
   \<and> ''nta'' \<noteq> ''tract''
   \<and> LongformLODES_get demo_crosswalks longform_env ''wac'' False 2017 ''nta'' = Inr demo_nta_out
   \<and> tracts_to_ntas demo_crosswalks (Some 2017) = Inr demo_ntas
   \<and> ''geometry'' \<notin> set (columns demo_ntas)
   \<and> columns demo_nta_out = [''geo_id'', ''geo_name'', ''age_29_or_younger'', ''total_jobs'']
   \<and> ''geometry'' \<notin> set (columns demo_nta_out)"
proof -
  note t = longform_get_drops_geometry_above_tract
    [of demo_crosswalks longform_env "''wac''" False 2017 "''nta''" demo_nta_out demo_ntas]
  have lv: "''nta'' \<noteq> ''tract''" by simp
  have nx: "''geometry'' \<notin> set (columns demo_ntas)"
    unfolding longform_nta_stages(2) by simp
  have g: "''geometry'' \<in> set (columns longform_demo_out)"
    unfolding longform_nta_stages(3) by simp
  from t have "LongformLODES_get demo_crosswalks longform_env ''wac'' False 2017 ''tract''
       = Dataset_get (fst (LongformLODES_download longform_env ''wac'' 2017 ''all'')) False"
    by blast
  with longform_tract_run
  have f: "Dataset_get (fst (LongformLODES_download longform_env ''wac'' 2017 ''all'')) False
       = Inr longform_demo_out" by simp
  have x: "(if ''nta'' = ''nta'' then tracts_to_ntas demo_crosswalks (Some 2017)
           else tracts_to_pumas demo_crosswalks (Some 2017)) = Inr demo_ntas"
    using longform_nta_stages(1) by simp
  from t lv longform_nta_run x nx
  have no: "''geometry'' \<notin> set (columns demo_nta_out)" by blast
  show ?thesis
    by (intro conjI longform_tract_run f g lv longform_nta_run longform_nta_stages(1) nx
          longform_nta_stages(4) no)
qed

end
